theory Spec2Isabelle
  imports Complex_Main
begin

text \<open>
  The chatbot route \<^verbatim>\<open>src/routes/demo/start.chatbot.tsx\<close>: a React component that keeps a
  list of messages, the text of an input box and a conversation state, and answers each
  message the user sends through \<open>handleBotResponse\<close>. The theory models the strings, the
  regular expression and the numbers of JavaScript as far as the route uses them, then the
  response function of the route (and of its second variant) and the component, and proves
  their properties.
\<close>

section \<open>Strings\<close>

text \<open>
  A JavaScript string is the sequence of its UTF-16 code units; a code unit is modelled as a
  natural number. \<open>js\<close> turns a literal of the source into that sequence (every literal of
  the program is ASCII).
\<close>

type_synonym jsstr = "nat list"

definition js :: "string \<Rightarrow> jsstr" where
  "js s = map of_char s"

text \<open>
  \<open>String.prototype.toLowerCase\<close>. On ASCII it maps \<open>A..Z\<close> to \<open>a..z\<close>. Outside ASCII the
  model keeps the code unit: the Unicode mapping that JavaScript applies there never yields
  one of the letters \<open>t a x n o\<close> and never changes an ASCII code unit, so the two tests of
  the program on the lowered text, \<open>includes('tax')\<close> and \<open>includes('no')\<close>, read the same.
\<close>

definition lowerUnit :: "nat \<Rightarrow> nat" where
  "lowerUnit c = (if 65 \<le> c \<and> c \<le> 90 then c + 32 else c)"

definition toLowerCase :: "jsstr \<Rightarrow> jsstr" where
  "toLowerCase s = map lowerUnit s"

text \<open>\<open>String.prototype.includes\<close>: the search string occurs at some position.\<close>

fun startsWith :: "jsstr \<Rightarrow> jsstr \<Rightarrow> bool" where
  "startsWith s [] = True"
| "startsWith [] (y # ys) = False"
| "startsWith (x # xs) (y # ys) = (x = y \<and> startsWith xs ys)"

fun includes_js :: "jsstr \<Rightarrow> jsstr \<Rightarrow> bool" where
  "includes_js [] t = startsWith [] t"
| "includes_js (x # xs) t = (startsWith (x # xs) t \<or> includes_js xs t)"

text \<open>
  White space and line terminators of ECMAScript: what \<open>trim\<close> strips and what \<open>\s\<close> matches.
\<close>

definition isLineTerminator :: "nat \<Rightarrow> bool" where
  "isLineTerminator c = (c = 10 \<or> c = 13 \<or> c = 8232 \<or> c = 8233)"

definition isWhiteSpace :: "nat \<Rightarrow> bool" where
  "isWhiteSpace c =
     (c = 9 \<or> c = 11 \<or> c = 12 \<or> c = 32 \<or> c = 160 \<or> c = 5760 \<or> (8192 \<le> c \<and> c \<le> 8202)
      \<or> c = 8239 \<or> c = 8287 \<or> c = 12288 \<or> c = 65279 \<or> isLineTerminator c)"

definition trim :: "jsstr \<Rightarrow> jsstr" where
  "trim s = rev (dropWhile isWhiteSpace (rev (dropWhile isWhiteSpace s)))"

section \<open>The regular expression of the details state\<close>

text \<open>
  The pattern of the source is
  \<^verbatim>\<open>/hours:\s*(\d+\.?\d*).*rate:\s*(\d+\.?\d*).*state:\s*(\w+).*county:\s*(\w+).*city:\s*(\w+)/i\<close>.
  It is a sequence of atoms: a character class, taken once or under one of the greedy
  quantifiers \<open>*\<close>, \<open>+\<close>, \<open>?\<close>, and the brackets of the five capture groups. The flag \<open>i\<close>
  (without \<open>u\<close>) compares canonical forms: a code unit is replaced by its upper case unless
  that would turn a non-ASCII unit into an ASCII one, so only \<open>a..z\<close> fold onto the letters of
  the pattern.
\<close>

datatype cclass = Lit nat | Digit | WordChar | Space | AnyChar

datatype atom = One cclass | Star cclass | Plus cclass | Opt cclass | GroupOpen | GroupClose

definition canonicalize :: "nat \<Rightarrow> nat" where
  "canonicalize c = (if 97 \<le> c \<and> c \<le> 122 then c - 32 else c)"

definition isDigit :: "nat \<Rightarrow> bool" where
  "isDigit c = (48 \<le> c \<and> c \<le> 57)"

definition isWordChar :: "nat \<Rightarrow> bool" where
  "isWordChar c = ((97 \<le> c \<and> c \<le> 122) \<or> (65 \<le> c \<and> c \<le> 90) \<or> isDigit c \<or> c = 95)"

fun accepts :: "cclass \<Rightarrow> nat \<Rightarrow> bool" where
  "accepts (Lit l) c = (canonicalize c = canonicalize l)"
| "accepts Digit c = isDigit c"
| "accepts WordChar c = isWordChar c"
| "accepts Space c = isWhiteSpace c"
| "accepts AnyChar c = (\<not> isLineTerminator c)"

text \<open>
  The backtracking matcher of ECMAScript on this fragment. \<open>backtrack k s cur caps\<close> matches
  the atoms \<open>k\<close> at the front of \<open>s\<close>; \<open>cur\<close> is the text consumed since the last opening
  bracket and \<open>caps\<close> the groups closed so far. A greedy quantifier first tries to take one
  more code unit and falls back to the rest of the pattern when that fails. The result is
  the list of captured groups of the first successful path, \<open>None\<close> when every path fails.
\<close>

fun backtrack :: "atom list \<Rightarrow> jsstr \<Rightarrow> jsstr \<Rightarrow> jsstr list \<Rightarrow> jsstr list option" where
  "backtrack [] s cur caps = Some caps"
| "backtrack (GroupOpen # k) s cur caps = backtrack k s [] caps"
| "backtrack (GroupClose # k) s cur caps = backtrack k s cur (caps @ [cur])"
| "backtrack (One c # k) [] cur caps = None"
| "backtrack (One c # k) (x # xs) cur caps =
     (if accepts c x then backtrack k xs (cur @ [x]) caps else None)"
| "backtrack (Plus c # k) [] cur caps = None"
| "backtrack (Plus c # k) (x # xs) cur caps =
     (if accepts c x then backtrack (Star c # k) xs (cur @ [x]) caps else None)"
| "backtrack (Star c # k) [] cur caps = backtrack k [] cur caps"
| "backtrack (Star c # k) (x # xs) cur caps =
     (if accepts c x
      then (case backtrack (Star c # k) xs (cur @ [x]) caps of
              Some r \<Rightarrow> Some r
            | None \<Rightarrow> backtrack k (x # xs) cur caps)
      else backtrack k (x # xs) cur caps)"
| "backtrack (Opt c # k) [] cur caps = backtrack k [] cur caps"
| "backtrack (Opt c # k) (x # xs) cur caps =
     (if accepts c x
      then (case backtrack k xs (cur @ [x]) caps of
              Some r \<Rightarrow> Some r
            | None \<Rightarrow> backtrack k (x # xs) cur caps)
      else backtrack k (x # xs) cur caps)"

text \<open>
  \<open>String.prototype.match\<close> with a pattern that has no \<open>g\<close> flag: the first start position,
  from the left, at which the pattern matches. The result holds the groups \<open>match[1]\<close>,
  \<open>match[2]\<close>, ... (\<open>match[0]\<close>, the matched text, is not read by the program); \<open>None\<close>
  is JavaScript's \<open>null\<close>.
\<close>

fun match_js :: "atom list \<Rightarrow> jsstr \<Rightarrow> jsstr list option" where
  "match_js k [] = backtrack k [] [] []"
| "match_js k (x # xs) =
     (case backtrack k (x # xs) [] [] of
        Some r \<Rightarrow> Some r
      | None \<Rightarrow> match_js k xs)"

definition lits :: "string \<Rightarrow> atom list" where
  "lits s = map (\<lambda>c. One (Lit (of_char c))) s"

definition number_group :: "atom list" where
  "number_group = [GroupOpen, Plus Digit, Opt (Lit 46), Star Digit, GroupClose]"

definition word_group :: "atom list" where
  "word_group = [GroupOpen, Plus WordChar, GroupClose]"

definition regex :: "atom list" where
  "regex =
     lits ''hours:'' @ [Star Space] @ number_group @ [Star AnyChar] @
     lits ''rate:'' @ [Star Space] @ number_group @ [Star AnyChar] @
     lits ''state:'' @ [Star Space] @ word_group @ [Star AnyChar] @
     lits ''county:'' @ [Star Space] @ word_group @ [Star AnyChar] @
     lits ''city:'' @ [Star Space] @ word_group"

text \<open>
  The shape of the captured groups: \<open>shaped P i inside k\<close> says that every class inside
  the brackets of the \<open>j\<close>-th group of \<open>k\<close> accepts only code units with \<open>P j\<close>, where the
  groups of \<open>k\<close> are counted from \<open>i\<close> and \<open>inside\<close> tells whether \<open>k\<close> starts inside one.
\<close>

definition fits :: "(nat \<Rightarrow> nat \<Rightarrow> bool) \<Rightarrow> nat \<Rightarrow> bool \<Rightarrow> cclass \<Rightarrow> bool" where
  "fits P i inside c = (inside \<longrightarrow> (\<forall>x. accepts c x \<longrightarrow> P i x))"

fun shaped :: "(nat \<Rightarrow> nat \<Rightarrow> bool) \<Rightarrow> nat \<Rightarrow> bool \<Rightarrow> atom list \<Rightarrow> bool" where
  "shaped P i inside [] = True"
| "shaped P i inside (GroupOpen # k) = shaped P i True k"
| "shaped P i inside (GroupClose # k) = (inside \<and> shaped P (Suc i) False k)"
| "shaped P i inside (One c # k) = (fits P i inside c \<and> shaped P i inside k)"
| "shaped P i inside (Star c # k) = (fits P i inside c \<and> shaped P i inside k)"
| "shaped P i inside (Plus c # k) = (fits P i inside c \<and> shaped P i inside k)"
| "shaped P i inside (Opt c # k) = (fits P i inside c \<and> shaped P i inside k)"

text \<open>The texts \<open>parseFloat\<close> is defined on, and the shape of the five groups of the pattern.\<close>

definition isNumberChar :: "nat \<Rightarrow> bool" where
  "isNumberChar c = (isDigit c \<or> c = 46)"

definition groupChar :: "nat \<Rightarrow> nat \<Rightarrow> bool" where
  "groupChar i = (if i < 2 then isNumberChar else isWordChar)"

section \<open>Numbers\<close>

text \<open>
  A Number of JavaScript is an IEEE 754 binary64 value. A finite value is modelled by the
  rational it denotes, and every operation rounds its exact result to the nearest binary64
  value, ties to the even significand (\<open>toDouble\<close>). The two zeros are one value here:
  no operation of the program tells them apart.
\<close>

datatype number = NaN | PosInf | NegInf | Finite rat

text \<open>The number of binary digits of a positive integer.\<close>

function bitlen :: "int \<Rightarrow> int" where
  "bitlen n = (if n \<le> 0 then 0 else 1 + bitlen (n div 2))"
  by pat_completeness auto
termination
proof (relation "measure nat")
  show "wf (measure nat)" by simp
next
  fix n :: int
  assume pos: "\<not> n \<le> 0"
  then have "n div 2 < n" by linarith
  with pos show "(n div 2, n) \<in> measure nat" by simp
qed

declare bitlen.simps [simp del]

text \<open>
  For \<open>q > 0\<close>, the integer \<open>e\<close> with \<open>2^e \<le> q < 2^(e+1)\<close>: for \<open>q \<ge> 1\<close> the integer
  part of \<open>q\<close> has \<open>e + 1\<close> bits; for \<open>q < 1\<close>, with \<open>k\<close> the number of bits of the integer
  part of \<open>1 / q\<close>, it is \<open>1 - k\<close> when \<open>q\<close> is that power of two and \<open>- k\<close> otherwise.
\<close>

definition floorLog2 :: "rat \<Rightarrow> int" where
  "floorLog2 q =
     (if 1 \<le> q then bitlen \<lfloor>q\<rfloor> - 1
      else (let k = bitlen \<lfloor>1 / q\<rfloor> in if 2 powi (1 - k) \<le> q then 1 - k else - k))"

definition roundHalfEven :: "rat \<Rightarrow> int" where
  "roundHalfEven q =
     (let f = \<lfloor>q\<rfloor>; d = q - of_int f
      in if d < 1 / 2 then f else if 1 / 2 < d then f + 1 else if even f then f else f + 1)"

text \<open>
  For \<open>q > 0\<close>: the multiple of the unit in the last place nearest to \<open>q\<close>. A binary64
  value has 53 significant bits, and its exponent is at least \<open>-1022\<close> (below that the
  values are subnormal, with the fixed unit \<open>2^-1074\<close>).
\<close>

definition roundPos :: "rat \<Rightarrow> rat" where
  "roundPos q =
     (let e = max (floorLog2 q) (- 1022); ulp = 2 powi (e - 52)
      in of_int (roundHalfEven (q / ulp)) * ulp)"

text \<open>
  The largest exponent of a finite binary64 value is 1023: a rounded magnitude of \<open>2^1024\<close>
  or more is an infinity.
\<close>

definition toDouble :: "rat \<Rightarrow> number" where
  "toDouble q =
     (if q = 0 then Finite 0
      else if 0 < q then (if 1024 \<le> floorLog2 (roundPos q) then PosInf else Finite (roundPos q))
      else (if 1024 \<le> floorLog2 (roundPos (- q)) then NegInf else Finite (- roundPos (- q))))"

fun neg :: "number \<Rightarrow> number" where
  "neg NaN = NaN"
| "neg PosInf = NegInf"
| "neg NegInf = PosInf"
| "neg (Finite a) = Finite (- a)"

fun add :: "number \<Rightarrow> number \<Rightarrow> number" where
  "add (Finite a) (Finite b) = toDouble (a + b)"
| "add NaN y = NaN"
| "add x NaN = NaN"
| "add PosInf NegInf = NaN"
| "add NegInf PosInf = NaN"
| "add PosInf y = PosInf"
| "add NegInf y = NegInf"
| "add (Finite a) y = y"

definition sub :: "number \<Rightarrow> number \<Rightarrow> number" where
  "sub x y = add x (neg y)"

fun mul :: "number \<Rightarrow> number \<Rightarrow> number" where
  "mul (Finite a) (Finite b) = toDouble (a * b)"
| "mul NaN y = NaN"
| "mul x NaN = NaN"
| "mul PosInf (Finite b) = (if b = 0 then NaN else if 0 < b then PosInf else NegInf)"
| "mul NegInf (Finite b) = (if b = 0 then NaN else if 0 < b then NegInf else PosInf)"
| "mul (Finite a) PosInf = (if a = 0 then NaN else if 0 < a then PosInf else NegInf)"
| "mul (Finite a) NegInf = (if a = 0 then NaN else if 0 < a then NegInf else PosInf)"
| "mul PosInf PosInf = PosInf"
| "mul PosInf NegInf = NegInf"
| "mul NegInf PosInf = NegInf"
| "mul NegInf NegInf = PosInf"

text \<open>
  \<open>parseFloat\<close> on texts of digits and dots, which is all that the groups
  \<open>(\d+\.?\d*)\<close> capture (lemma \<open>groups_shape\<close> below): the longest prefix of the
  form digits, optional dot, digits is read as a decimal number and rounded to binary64; a
  text with no digit where a number must start gives \<open>NaN\<close>. Signs, exponents, leading
  blanks and \<open>Infinity\<close>, which need other characters, are not modelled.
\<close>

definition digitsValue :: "jsstr \<Rightarrow> int" where
  "digitsValue ds = foldl (\<lambda>a c. 10 * a + int (c - 48)) 0 ds"

definition parseFloat :: "jsstr \<Rightarrow> number" where
  "parseFloat s =
     (let ip = takeWhile isDigit s;
          r = dropWhile isDigit s;
          fp = (case r of [] \<Rightarrow> [] | c # t \<Rightarrow> if c = 46 then takeWhile isDigit t else [])
      in if ip = [] \<and> fp = [] then NaN
         else toDouble (of_int (digitsValue (ip @ fp)) / 10 ^ length fp))"

text \<open>The decimal representation of a non-negative integer.\<close>

function decimalDigits :: "int \<Rightarrow> jsstr" where
  "decimalDigits n =
     (if n < 10 then [48 + nat n] else decimalDigits (n div 10) @ [48 + nat (n mod 10)])"
  by pat_completeness auto
termination
proof (relation "measure nat")
  show "wf (measure nat)" by simp
next
  fix n :: int
  assume big: "\<not> n < 10"
  then have "n div 10 < n" by linarith
  with big show "(n div 10, n) \<in> measure nat" by simp
qed

declare decimalDigits.simps [simp del]

text \<open>
  \<open>Number::toString\<close> for a finite value \<open>q \<ge> 10^21\<close>, the only values \<open>toFixed\<close> hands
  to it. The specification asks for integers \<open>n\<close>, \<open>k\<close>, \<open>s\<close> with \<open>10^(k-1) \<le> s < 10^k\<close>,
  such that \<open>s * 10^(n-k)\<close> rounds to \<open>q\<close> and \<open>k\<close> is as small as possible (of two such \<open>s\<close>
  the one nearer to \<open>q\<close>), and prints \<open>s\<close> in exponential notation with exponent \<open>n - 1\<close>.
  With \<open>d\<close> the number of digits of \<open>q\<close> (an integer, being at least \<open>2^53\<close>), \<open>n\<close> is
  \<open>d + 1\<close> when \<open>10^d\<close> itself rounds to \<open>q\<close> and \<open>d\<close> otherwise. Seventeen digits
  identify every binary64 value, so the search ends at \<open>k = 17\<close>.
\<close>

definition roundsTo :: "rat \<Rightarrow> int \<Rightarrow> nat \<Rightarrow> bool" where
  "roundsTo q s p = (toDouble (of_int s * 10 ^ p) = Finite q)"

definition digitCandidates :: "rat \<Rightarrow> nat \<Rightarrow> nat \<Rightarrow> int list" where
  "digitCandidates q d k =
     (let lo = \<lfloor>q / 10 ^ (d - k)\<rfloor>
      in filter (\<lambda>s. 10 ^ (k - 1) \<le> s \<and> s < 10 ^ k \<and> roundsTo q s (d - k)) [lo, lo + 1])"

fun shortestDigits :: "rat \<Rightarrow> nat \<Rightarrow> nat list \<Rightarrow> int" where
  "shortestDigits q d [] = roundHalfEven (q / 10 ^ (d - 17))"
| "shortestDigits q d (k # ks) =
     (case digitCandidates q d k of
        [] \<Rightarrow> shortestDigits q d ks
      | [s] \<Rightarrow> s
      | s # s' # _ \<Rightarrow> if roundHalfEven (q / 10 ^ (d - k)) = s then s else s')"

definition exponential :: "int \<Rightarrow> nat \<Rightarrow> jsstr" where
  "exponential s n =
     (let ds = decimalDigits s
      in (if length ds = 1 then ds else take 1 ds @ js ''.'' @ drop 1 ds)
         @ js ''e+'' @ decimalDigits (int n - 1))"

definition toStringLarge :: "rat \<Rightarrow> jsstr" where
  "toStringLarge q =
     (let d = length (decimalDigits \<lfloor>q\<rfloor>)
      in if roundsTo q 1 d then exponential 1 (d + 1)
         else exponential (shortestDigits q d [1 ..< 18]) d)"

text \<open>
  \<open>Number.prototype.toFixed(f)\<close>. A value that is not finite prints as its name. A finite
  value prints its sign and then, for a magnitude of \<open>10^21\<close> or more, the general
  \<open>toString\<close>; otherwise the integer \<open>n\<close> nearest to \<open>x * 10^f\<close> (the larger of two), with
  a dot before its last \<open>f\<close> digits, padded with zeros to \<open>f + 1\<close> digits.
\<close>

definition fixedDigits :: "rat \<Rightarrow> nat \<Rightarrow> jsstr" where
  "fixedDigits x f =
     (let n = \<lfloor>x * 10 ^ f + 1 / 2\<rfloor>;
          m = decimalDigits n;
          m = (if f \<noteq> 0 \<and> length m \<le> f then replicate (f + 1 - length m) 48 @ m else m)
      in if f = 0 then m
         else take (length m - f) m @ js ''.'' @ drop (length m - f) m)"

definition toFixed :: "number \<Rightarrow> nat \<Rightarrow> jsstr" where
  "toFixed x f =
     (case x of
        NaN \<Rightarrow> js ''NaN''
      | PosInf \<Rightarrow> js ''Infinity''
      | NegInf \<Rightarrow> js ''-Infinity''
      | Finite q \<Rightarrow>
          (if q < 0 then js ''-'' else []) @
          (if 10 ^ 21 \<le> \<bar>q\<bar> then toStringLarge \<bar>q\<bar> else fixedDigits \<bar>q\<bar> f))"

text \<open>
  A text with exactly two decimal places: decimal digits, at least one, then a dot and two
  decimal digits.
\<close>

definition twoDecimals :: "jsstr \<Rightarrow> bool" where
  "twoDecimals s =
     (case rev s of
        f2 # f1 # dot # i # ip \<Rightarrow> isDigit f2 \<and> isDigit f1 \<and> dot = 46 \<and> list_all isDigit (i # ip)
      | _ \<Rightarrow> False)"

text \<open>A finite amount below \<open>10^21\<close>, the bound from which \<open>toFixed\<close> leaves fixed notation.\<close>

fun belowLimit :: "number \<Rightarrow> bool" where
  "belowLimit (Finite q) = (q < 10 ^ 21)"
| "belowLimit x = False"

section \<open>The conversation engine\<close>

datatype ChatState = idle | awaiting_tax_request | awaiting_tax_details | awaiting_anything_else

text \<open>
  \<open>handleBotResponse\<close> reads the state of the component and may call \<open>setState\<close> before it
  returns the reply: the model takes the state and returns the reply with the state of the
  next render. A branch that does not call \<open>setState\<close> returns the state it was given.
  In the details state a successful match always carries the five groups of the pattern
  (lemma \<open>five_groups\<close> below), so the last case of the model is the \<open>null\<close> of the source.
\<close>

definition detailsPrompt :: jsstr where
  "detailsPrompt =
     js ''Sure! Please include your information like so, \"hours: 40, rate: 35, state: NY, county: Kings, city: NYC\".''"

definition helpPrompt :: jsstr where
  "helpPrompt =
     js ''I can help you calculate taxes. Please type \"please calculate my taxes\" to begin.''"

definition retryPrompt :: jsstr where
  "retryPrompt =
     js ''Please include your information like so, \"hours: 40, rate: 35, state: NY, county: Kings, city: NYC\".''"

definition thanks :: jsstr where
  "thanks = js ''Thanks, have a nice day!''"

definition okay :: jsstr where
  "okay = js ''Okay! Let me know if you would like me to calculate taxes again.''"

text \<open>The template literal of the details state, with the three amounts already formatted.\<close>

definition estimate :: "jsstr \<Rightarrow> jsstr \<Rightarrow> jsstr \<Rightarrow> jsstr \<Rightarrow> jsstr \<Rightarrow> jsstr \<Rightarrow> jsstr" where
  "estimate cityName countyName stateName gross taxes net =
     js ''Estimated taxes for '' @ cityName @ js '', '' @ countyName @ js '' County, '' @ stateName @
     js '':\<newline>Gross Pay: $'' @ gross @
     js ''\<newline>Taxes: $'' @ taxes @
     js ''\<newline>Net Pay: $'' @ net @
     js ''\<newline>(Note: this is an estimate.)\<newline>\<newline>Would you like help with anything else?''"

text \<open>The tax rates of the details state, constants of the source.\<close>

definition federalRate :: number where
  "federalRate = toDouble (12 / 100)"

definition stateRate :: number where
  "stateRate = toDouble (5 / 100)"

definition totalRate :: number where
  "totalRate = add federalRate stateRate"

fun handleBotResponse :: "ChatState \<Rightarrow> jsstr \<Rightarrow> jsstr \<times> ChatState" where
  "handleBotResponse awaiting_tax_request userInput =
     (let lowerInput = toLowerCase userInput
      in if includes_js lowerInput (js ''tax'') then (detailsPrompt, awaiting_tax_details)
         else if includes_js lowerInput (js ''no'') then (thanks, awaiting_anything_else)
         else (helpPrompt, awaiting_tax_request))"
| "handleBotResponse awaiting_tax_details userInput =
     (case match_js regex userInput of
        Some [m1, m2, m3, m4, m5] \<Rightarrow>
          (let hours = parseFloat m1;
               rate = parseFloat m2;
               stateName = m3;
               countyName = m4;
               cityName = m5;
               grossPay = mul hours rate;
               taxes = mul grossPay totalRate;
               netPay = sub grossPay taxes
           in (estimate cityName countyName stateName
                 (toFixed grossPay 2) (toFixed taxes 2) (toFixed netPay 2),
               awaiting_anything_else))
      | _ \<Rightarrow> (retryPrompt, awaiting_tax_details))"
| "handleBotResponse awaiting_anything_else userInput =
     (let lowerInput = toLowerCase userInput
      in if includes_js lowerInput (js ''no'') then (thanks, awaiting_tax_request)
         else if includes_js lowerInput (js ''tax'') then (detailsPrompt, awaiting_tax_details)
         else (okay, awaiting_tax_request))"
| "handleBotResponse idle userInput = (okay, awaiting_anything_else)"

subsection \<open>The second variant of the route\<close>

text \<open>
  The second copy of the route differs in two places: the lines of its template literal are
  indented by twelve blanks, and in \<open>awaiting_anything_else\<close> the answer \<open>no\<close> keeps the state.
\<close>

definition estimate_v2 :: "jsstr \<Rightarrow> jsstr \<Rightarrow> jsstr \<Rightarrow> jsstr \<Rightarrow> jsstr \<Rightarrow> jsstr \<Rightarrow> jsstr" where
  "estimate_v2 cityName countyName stateName gross taxes net =
     js ''Estimated taxes for '' @ cityName @ js '', '' @ countyName @ js '' County, '' @ stateName @
     js '':\<newline>            Gross Pay: $'' @ gross @
     js ''\<newline>            Taxes: $'' @ taxes @
     js ''\<newline>            Net Pay: $'' @ net @
     js ''\<newline>            (Note: this is an estimate.)\<newline>\<newline>            Would you like help with anything else?''"

fun handleBotResponse_v2 :: "ChatState \<Rightarrow> jsstr \<Rightarrow> jsstr \<times> ChatState" where
  "handleBotResponse_v2 awaiting_tax_request userInput =
     (let lowerInput = toLowerCase userInput
      in if includes_js lowerInput (js ''tax'') then (detailsPrompt, awaiting_tax_details)
         else if includes_js lowerInput (js ''no'') then (thanks, awaiting_anything_else)
         else (helpPrompt, awaiting_tax_request))"
| "handleBotResponse_v2 awaiting_tax_details userInput =
     (case match_js regex userInput of
        Some [m1, m2, m3, m4, m5] \<Rightarrow>
          (let hours = parseFloat m1;
               rate = parseFloat m2;
               stateName = m3;
               countyName = m4;
               cityName = m5;
               grossPay = mul hours rate;
               taxes = mul grossPay totalRate;
               netPay = sub grossPay taxes
           in (estimate_v2 cityName countyName stateName
                 (toFixed grossPay 2) (toFixed taxes 2) (toFixed netPay 2),
               awaiting_anything_else))
      | _ \<Rightarrow> (retryPrompt, awaiting_tax_details))"
| "handleBotResponse_v2 awaiting_anything_else userInput =
     (let lowerInput = toLowerCase userInput
      in if includes_js lowerInput (js ''no'') then (thanks, awaiting_anything_else)
         else if includes_js lowerInput (js ''tax'') then (detailsPrompt, awaiting_tax_details)
         else (okay, awaiting_tax_request))"
| "handleBotResponse_v2 idle userInput = (okay, awaiting_anything_else)"

section \<open>The component\<close>

datatype Sender = user_sender | bot_sender

record Message =
  sender :: Sender
  text_js :: jsstr

record Chat =
  messages :: "Message list"
  input :: jsstr
  state :: ChatState

text \<open>The values given to \<open>useState\<close>, and the effect that runs once when the component mounts.\<close>

definition initial :: Chat where
  "initial = \<lparr>messages = [], input = [], state = idle\<rparr>"

definition initialMessage :: Message where
  "initialMessage = \<lparr>sender = bot_sender, text_js = js ''Hello, my name is Jacob. How can I help you?''\<rparr>"

definition mountEffect :: "Chat \<Rightarrow> Chat" where
  "mountEffect c = c\<lparr>messages := [initialMessage], state := awaiting_tax_request\<rparr>"

text \<open>
  \<open>handleSend\<close> returns at once when the trimmed input is empty. Otherwise the updates it
  queues (two appends to the messages, the state set by \<open>handleBotResponse\<close>, the input
  cleared) are applied together before the next event.
\<close>

definition handleSend :: "Chat \<Rightarrow> Chat" where
  "handleSend c =
     (if trim (input c) = [] then c
      else
        (let userMessage = \<lparr>sender = user_sender, text_js = input c\<rparr>;
             response = handleBotResponse (state c) (input c);
             botMessage = \<lparr>sender = bot_sender, text_js = fst response\<rparr>
         in c\<lparr>messages := (messages c @ [userMessage]) @ [botMessage],
               state := snd response,
               input := []\<rparr>))"

text \<open>
  The events of the page: an edit of the text box (\<open>onChange\<close>), a key pressed in it
  (\<open>handleKeyPress\<close> sends on \<open>Enter\<close>), a click on the button.
\<close>

datatype Event = Change jsstr | KeyDown string | Click

definition handleKeyPress :: "string \<Rightarrow> Chat \<Rightarrow> Chat" where
  "handleKeyPress key c = (if key = ''Enter'' then handleSend c else c)"

fun dispatch :: "Chat \<Rightarrow> Event \<Rightarrow> Chat" where
  "dispatch c (Change v) = c\<lparr>input := v\<rparr>"
| "dispatch c (KeyDown key) = handleKeyPress key c"
| "dispatch c Click = handleSend c"

text \<open>A session: the component mounts, then the events arrive one after the other.\<close>

definition session :: "Event list \<Rightarrow> Chat" where
  "session es = foldl dispatch (mountEffect initial) es"

text \<open>
  \<open>handleBotResponse\<close> as the closure it is in the source: an inner function of the
  component, with the whole render scope (\<open>messages\<close>, \<open>input\<close>, \<open>state\<close> and their
  setters) in reach and \<open>userInput\<close> as its only parameter. \<open>responds c userInput reply c'\<close>
  says that, called in the scope \<open>c\<close>, it can return \<open>reply\<close> and leave the scope \<open>c'\<close>. There
  is one rule for each \<open>return\<close> of the source, under the condition on which control
  reaches it; a rule changes the scope only where the source calls a setter.
\<close>

inductive responds :: "Chat \<Rightarrow> jsstr \<Rightarrow> jsstr \<Rightarrow> Chat \<Rightarrow> bool" where
  request_tax:
    "\<lbrakk>state c = awaiting_tax_request; includes_js (toLowerCase userInput) (js ''tax'')\<rbrakk>
     \<Longrightarrow> responds c userInput detailsPrompt (c\<lparr>state := awaiting_tax_details\<rparr>)"
| request_no:
    "\<lbrakk>state c = awaiting_tax_request; \<not> includes_js (toLowerCase userInput) (js ''tax'');
      includes_js (toLowerCase userInput) (js ''no'')\<rbrakk>
     \<Longrightarrow> responds c userInput thanks (c\<lparr>state := awaiting_anything_else\<rparr>)"
| request_help:
    "\<lbrakk>state c = awaiting_tax_request; \<not> includes_js (toLowerCase userInput) (js ''tax'');
      \<not> includes_js (toLowerCase userInput) (js ''no'')\<rbrakk>
     \<Longrightarrow> responds c userInput helpPrompt c"
| details_estimate:
    "\<lbrakk>state c = awaiting_tax_details; match_js regex userInput = Some [m1, m2, m3, m4, m5];
      grossPay = mul (parseFloat m1) (parseFloat m2); taxes = mul grossPay totalRate;
      netPay = sub grossPay taxes\<rbrakk>
     \<Longrightarrow> responds c userInput
           (estimate m5 m4 m3 (toFixed grossPay 2) (toFixed taxes 2) (toFixed netPay 2))
           (c\<lparr>state := awaiting_anything_else\<rparr>)"
| details_retry:
    "\<lbrakk>state c = awaiting_tax_details; match_js regex userInput = None\<rbrakk>
     \<Longrightarrow> responds c userInput retryPrompt c"
| else_no:
    "\<lbrakk>state c = awaiting_anything_else; includes_js (toLowerCase userInput) (js ''no'')\<rbrakk>
     \<Longrightarrow> responds c userInput thanks (c\<lparr>state := awaiting_tax_request\<rparr>)"
| else_tax:
    "\<lbrakk>state c = awaiting_anything_else; \<not> includes_js (toLowerCase userInput) (js ''no'');
      includes_js (toLowerCase userInput) (js ''tax'')\<rbrakk>
     \<Longrightarrow> responds c userInput detailsPrompt (c\<lparr>state := awaiting_tax_details\<rparr>)"
| else_okay:
    "\<lbrakk>state c = awaiting_anything_else; \<not> includes_js (toLowerCase userInput) (js ''no'');
      \<not> includes_js (toLowerCase userInput) (js ''tax'')\<rbrakk>
     \<Longrightarrow> responds c userInput okay (c\<lparr>state := awaiting_tax_request\<rparr>)"
| fallback:
    "\<lbrakk>state c \<noteq> awaiting_tax_request; state c \<noteq> awaiting_tax_details;
      state c \<noteq> awaiting_anything_else\<rbrakk>
     \<Longrightarrow> responds c userInput okay (c\<lparr>state := awaiting_anything_else\<rparr>)"

code_pred responds .

text \<open>
  A run of the engine alone over a list of utterances: the replies in order and the last
  state.
\<close>

fun exchange :: "ChatState \<Rightarrow> jsstr list \<Rightarrow> jsstr list \<times> ChatState" where
  "exchange s [] = ([], s)"
| "exchange s (u # us) =
     (fst (handleBotResponse s u) # fst (exchange (snd (handleBotResponse s u)) us),
      snd (exchange (snd (handleBotResponse s u)) us))"

section \<open>Properties of the pattern and of the number formats\<close>

lemmas regex_defs = regex_def lits_def number_group_def word_group_def canonicalize_def
  isDigit_def isWordChar_def isWhiteSpace_def isLineTerminator_def

lemma backtrack_groups:
  "backtrack k s cur caps = Some r \<Longrightarrow> length r = length caps + count_list k GroupClose"
  by (induction k s cur caps rule: backtrack.induct)
     (auto split: if_splits option.splits)

lemma match_js_groups: "match_js k s = Some r \<Longrightarrow> length r = count_list k GroupClose"
  by (induction s) (auto split: option.splits dest: backtrack_groups)

lemma regex_groups: "count_list regex GroupClose = 5"
  by (simp add: regex_def lits_def number_group_def word_group_def)

lemma five_groups:
  assumes "match_js regex u = Some m"
  shows "\<exists>m1 m2 m3 m4 m5. m = [m1, m2, m3, m4, m5]"
proof -
  have "length m = 5" using match_js_groups [OF assms] regex_groups by simp
  then show ?thesis
    by (auto simp: length_Suc_conv eval_nat_numeral)
qed

lemma backtrack_shaped:
  "backtrack k s cur caps = Some r \<Longrightarrow> shaped P (length caps) inside k
   \<Longrightarrow> (inside \<Longrightarrow> list_all (P (length caps)) cur)
   \<Longrightarrow> (\<And>i. i < length caps \<Longrightarrow> list_all (P i) (caps ! i))
   \<Longrightarrow> j < length r \<Longrightarrow> list_all (P j) (r ! j)"
proof (induction k s cur caps arbitrary: inside rule: backtrack.induct)
  case (1 s cur caps)
  then show ?case by simp
next
  case (2 k s cur caps)
  then show ?case by simp
next
  case (3 k s cur caps)
  from "3.prems"(2) have inside and sh: "shaped P (Suc (length caps)) False k" by simp_all
  show ?case
  proof (rule "3.IH" [of False])
    show "backtrack k s cur (caps @ [cur]) = Some r" using "3.prems"(1) by simp
    show "shaped P (length (caps @ [cur])) False k" using sh by simp
    show "list_all (P (length (caps @ [cur]))) cur" if False using that by simp
    show "list_all (P i) ((caps @ [cur]) ! i)" if "i < length (caps @ [cur])" for i
      using that "3.prems"(3,4) \<open>inside\<close>
      by (cases "i < length caps") (auto simp: nth_append less_Suc_eq)
    show "j < length r" by (rule "3.prems"(5))
  qed
next
  case (4 c k cur caps)
  then show ?case by simp
next
  case (5 c k x xs cur caps)
  from "5.prems"(1) have acc: "accepts c x"
    and run: "backtrack k xs (cur @ [x]) caps = Some r"
    by (simp_all split: if_splits)
  show ?case
  proof (rule "5.IH" [OF acc run])
    show "shaped P (length caps) inside k" using "5.prems"(2) by simp
    show "list_all (P (length caps)) (cur @ [x])" if inside
      using that "5.prems"(2,3) acc by (simp add: fits_def)
    show "list_all (P i) (caps ! i)" if "i < length caps" for i using that by (rule "5.prems"(4))
    show "j < length r" by (rule "5.prems"(5))
  qed
next
  case (6 c k cur caps)
  then show ?case by simp
next
  case (7 c k x xs cur caps)
  from "7.prems"(1) have acc: "accepts c x"
    and run: "backtrack (Star c # k) xs (cur @ [x]) caps = Some r"
    by (simp_all split: if_splits)
  show ?case
  proof (rule "7.IH" [OF acc run])
    show "shaped P (length caps) inside (Star c # k)" using "7.prems"(2) by simp
    show "list_all (P (length caps)) (cur @ [x])" if inside
      using that "7.prems"(2,3) acc by (simp add: fits_def)
    show "list_all (P i) (caps ! i)" if "i < length caps" for i using that by (rule "7.prems"(4))
    show "j < length r" by (rule "7.prems"(5))
  qed
next
  case (8 c k cur caps)
  show ?case
  proof (rule "8.IH" [of inside])
    show "backtrack k [] cur caps = Some r" using "8.prems"(1) by simp
    show "shaped P (length caps) inside k" using "8.prems"(2) by simp
    show "list_all (P (length caps)) cur" if inside using that by (rule "8.prems"(3))
    show "list_all (P i) (caps ! i)" if "i < length caps" for i using that by (rule "8.prems"(4))
    show "j < length r" by (rule "8.prems"(5))
  qed
next
  case (9 c k x xs cur caps)
  show ?case
  proof (cases "accepts c x \<and> backtrack (Star c # k) xs (cur @ [x]) caps \<noteq> None")
    case True
    then have acc: "accepts c x"
      and run: "backtrack (Star c # k) xs (cur @ [x]) caps = Some r"
      using "9.prems"(1) by auto
    show ?thesis
    proof (rule "9.IH"(1) [OF acc run])
      show "shaped P (length caps) inside (Star c # k)" by (rule "9.prems"(2))
      show "list_all (P (length caps)) (cur @ [x])" if inside
        using that "9.prems"(2,3) acc by (simp add: fits_def)
      show "list_all (P i) (caps ! i)" if "i < length caps" for i using that by (rule "9.prems"(4))
      show "j < length r" by (rule "9.prems"(5))
    qed
  next
    case False
    then have run: "backtrack k (x # xs) cur caps = Some r"
      using "9.prems"(1) by (auto split: if_splits option.splits)
    from False consider "accepts c x" "backtrack (Star c # k) xs (cur @ [x]) caps = None"
      | "\<not> accepts c x" by auto
    then show ?thesis
    proof cases
      case 1
      show ?thesis
        using "9.IH"(2) [OF 1 run _ "9.prems"(3,4,5), of inside] "9.prems"(2) by simp
    next
      case 2
      show ?thesis
        using "9.IH"(3) [OF 2 run _ "9.prems"(3,4,5), of inside] "9.prems"(2) by simp
    qed
  qed
next
  case (10 c k cur caps)
  show ?case
  proof (rule "10.IH" [of inside])
    show "backtrack k [] cur caps = Some r" using "10.prems"(1) by simp
    show "shaped P (length caps) inside k" using "10.prems"(2) by simp
    show "list_all (P (length caps)) cur" if inside using that by (rule "10.prems"(3))
    show "list_all (P i) (caps ! i)" if "i < length caps" for i using that by (rule "10.prems"(4))
    show "j < length r" by (rule "10.prems"(5))
  qed
next
  case (11 c k x xs cur caps)
  show ?case
  proof (cases "accepts c x \<and> backtrack k xs (cur @ [x]) caps \<noteq> None")
    case True
    then have acc: "accepts c x"
      and run: "backtrack k xs (cur @ [x]) caps = Some r"
      using "11.prems"(1) by auto
    show ?thesis
    proof (rule "11.IH"(1) [OF acc run])
      show "shaped P (length caps) inside k" using "11.prems"(2) by simp
      show "list_all (P (length caps)) (cur @ [x])" if inside
        using that "11.prems"(2,3) acc by (simp add: fits_def)
      show "list_all (P i) (caps ! i)" if "i < length caps" for i using that by (rule "11.prems"(4))
      show "j < length r" by (rule "11.prems"(5))
    qed
  next
    case False
    then have run: "backtrack k (x # xs) cur caps = Some r"
      using "11.prems"(1) by (auto split: if_splits option.splits)
    from False consider "accepts c x" "backtrack k xs (cur @ [x]) caps = None"
      | "\<not> accepts c x" by auto
    then show ?thesis
    proof cases
      case 1
      show ?thesis
        using "11.IH"(2) [OF 1 run _ "11.prems"(3,4,5), of inside] "11.prems"(2) by simp
    next
      case 2
      show ?thesis
        using "11.IH"(3) [OF 2 run _ "11.prems"(3,4,5), of inside] "11.prems"(2) by simp
    qed
  qed
qed

lemma match_js_shaped:
  assumes "match_js k s = Some r" and "shaped P 0 False k" and "j < length r"
  shows "list_all (P j) (r ! j)"
  using assms
proof (induction s)
  case Nil
  then show ?case using backtrack_shaped [of k "[]" "[]" "[]" r P False j] by simp
next
  case (Cons x xs)
  show ?case
  proof (cases "backtrack k (x # xs) [] []")
    case None
    with Cons show ?thesis by simp
  next
    case (Some r')
    with Cons.prems have "backtrack k (x # xs) [] [] = Some r" by simp
    then show ?thesis
      using backtrack_shaped [of k "x # xs" "[]" "[]" r P False j] Cons.prems by simp
  qed
qed

lemma regex_shaped: "shaped groupChar 0 False regex"
  by (auto simp: regex_def lits_def number_group_def word_group_def fits_def groupChar_def
        isNumberChar_def canonicalize_def split: if_splits)

lemma groups_shape:
  assumes "match_js regex u = Some [m1, m2, m3, m4, m5]"
  shows "list_all isNumberChar m1 \<and> list_all isNumberChar m2
         \<and> list_all isWordChar m3 \<and> list_all isWordChar m4 \<and> list_all isWordChar m5"
  using match_js_shaped [OF assms regex_shaped, of 0]
        match_js_shaped [OF assms regex_shaped, of 1]
        match_js_shaped [OF assms regex_shaped, of 2]
        match_js_shaped [OF assms regex_shaped, of 3]
        match_js_shaped [OF assms regex_shaped, of 4]
  by (simp add: groupChar_def)

lemma decimalDigits_digits:
  "0 \<le> n \<Longrightarrow> decimalDigits n \<noteq> [] \<and> list_all isDigit (decimalDigits n)"
proof (induction n rule: decimalDigits.induct)
  case (1 n)
  show ?case
  proof (cases "n < 10")
    case True
    with "1.prems" show ?thesis
      by (subst (1 2) decimalDigits.simps) (simp add: isDigit_def)
  next
    case False
    with "1.prems" "1.IH" have "list_all isDigit (decimalDigits (n div 10))" by simp
    moreover have "isDigit (48 + nat (n mod 10))"
      using "1.prems" by (simp add: isDigit_def)
    ultimately show ?thesis
      using False by (subst (1 2) decimalDigits.simps) simp
  qed
qed

lemma twoDecimals_split:
  assumes "ip \<noteq> []" and "list_all isDigit ip" and "isDigit a" and "isDigit b"
  shows "twoDecimals (ip @ js ''.'' @ [a, b])"
proof -
  obtain i rest where r: "rev ip = i # rest"
    using assms(1) by (cases "rev ip") auto
  have "list_all isDigit (rev ip)" using assms(2) by (simp add: list_all_iff)
  with r have "list_all isDigit (i # rest)" by simp
  with r assms(3,4) show ?thesis by (simp add: twoDecimals_def js_def)
qed

lemma fixedDigits_two:
  assumes "0 \<le> x"
  shows "twoDecimals (fixedDigits x 2)"
proof -
  define n where "n = \<lfloor>x * 10 ^ 2 + 1 / 2\<rfloor>"
  define m where "m = decimalDigits n"
  define m' where "m' = (if length m \<le> 2 then replicate (3 - length m) 48 @ m else m)"
  have "0 \<le> n" using assms by (simp add: n_def)
  then have digits: "list_all isDigit m" and "m \<noteq> []"
    using decimalDigits_digits [of n] by (simp_all add: m_def)
  have long: "3 \<le> length m'" by (simp add: m'_def)
  have all: "list_all isDigit m'"
    using digits by (simp add: m'_def list_all_iff isDigit_def)
  define ip where "ip = take (length m' - 2) m'"
  define fp where "fp = drop (length m' - 2) m'"
  have "length fp = 2" using long by (simp add: fp_def)
  then obtain a b where fp: "fp = [a, b]"
    by (auto simp: length_Suc_conv eval_nat_numeral)
  have "ip \<noteq> []" using long by (auto simp: ip_def)
  moreover have "list_all isDigit ip"
    using all by (auto simp: ip_def list_all_iff dest: in_set_takeD)
  moreover have "list_all isDigit fp"
    using all by (auto simp: fp_def list_all_iff dest: in_set_dropD)
  then have "isDigit a" "isDigit b" by (simp_all add: fp)
  ultimately have "twoDecimals (ip @ js ''.'' @ [a, b])" by (rule twoDecimals_split)
  moreover have "fixedDigits x 2 = ip @ js ''.'' @ fp"
    by (simp add: fixedDigits_def Let_def n_def m_def m'_def ip_def fp_def)
  ultimately show ?thesis by (simp add: fp)
qed

lemma toFixed_two:
  assumes "0 \<le> q" and "q < 10 ^ 21"
  shows "twoDecimals (toFixed (Finite q) 2)"
  using assms fixedDigits_two [of q] by (simp add: toFixed_def)

subsection \<open>Rounding to binary64\<close>

lemma bitlen_bounds:
  "0 < n \<Longrightarrow> 1 \<le> bitlen n \<and> 2 ^ nat (bitlen n - 1) \<le> n \<and> n < 2 ^ nat (bitlen n)"
proof (induction n rule: bitlen.induct)
  case (1 n)
  have unfold: "bitlen n = 1 + bitlen (n div 2)"
    using "1.prems" by (subst bitlen.simps) simp
  show ?case
  proof (cases "n div 2 = 0")
    case True
    then have "n = 1" using "1.prems" by linarith
    moreover have "bitlen 0 = 0" by (subst bitlen.simps) simp
    ultimately show ?thesis using unfold by simp
  next
    case False
    then have pos: "0 < n div 2" using "1.prems" by linarith
    define b where "b = bitlen (n div 2)"
    from "1.IH" pos "1.prems" have ih: "1 \<le> b" "2 ^ nat (b - 1) \<le> n div 2" "n div 2 < 2 ^ nat b"
      by (simp_all add: b_def)
    have nat_b: "nat b = Suc (nat (b - 1))" using ih(1) by simp
    have lower: "(2::int) ^ nat b \<le> n"
    proof -
      have "(2::int) ^ nat b = 2 * 2 ^ nat (b - 1)" by (simp add: nat_b)
      also have "\<dots> \<le> 2 * (n div 2)" using ih(2) by simp
      also have "\<dots> \<le> n" by linarith
      finally show ?thesis .
    qed
    have upper: "n < 2 ^ nat (b + 1)"
    proof -
      have "n < 2 * (n div 2) + 2" by linarith
      also have "\<dots> \<le> 2 * 2 ^ nat b" using ih(3) by simp
      also have "\<dots> = 2 ^ nat (b + 1)" using ih(1) by (simp add: nat_add_distrib)
      finally show ?thesis .
    qed
    from lower upper ih(1) show ?thesis
      unfolding unfold b_def [symmetric] by (simp add: add.commute)
  qed
qed

lemma floorLog2_bounds:
  assumes "0 < q"
  shows "2 powi floorLog2 q \<le> q \<and> q < 2 powi (floorLog2 q + 1)"
proof (cases "1 \<le> q")
  case True
  define n where "n = \<lfloor>q\<rfloor>"
  have n: "0 < n" using True by (simp add: n_def)
  have fl: "floorLog2 q = bitlen n - 1" using True by (simp add: floorLog2_def n_def)
  from bitlen_bounds [OF n] have b: "1 \<le> bitlen n" "2 ^ nat (bitlen n - 1) \<le> n"
    "n < 2 ^ nat (bitlen n)" by simp_all
  have "(2::rat) powi (bitlen n - 1) = of_int (2 ^ nat (bitlen n - 1))"
    using b(1) by (simp add: power_int_def)
  also have "\<dots> \<le> of_int n" using b(2) by (simp only: of_int_le_iff)
  also have "\<dots> \<le> q" by (simp add: n_def)
  finally have lower: "2 powi (bitlen n - 1) \<le> q" .
  have "q < of_int (n + 1)" using floor_correct [of q] by (simp add: n_def)
  also have "\<dots> \<le> of_int (2 ^ nat (bitlen n))"
    using b(3) by (simp only: of_int_le_iff)
  also have "\<dots> = (2::rat) powi (bitlen n)" using b(1) by (simp add: power_int_def)
  finally have upper: "q < 2 powi (bitlen n)" .
  from lower upper show ?thesis by (simp add: fl)
next
  case False
  define x where "x = 1 / q"
  define n where "n = \<lfloor>x\<rfloor>"
  define k where "k = bitlen n"
  have x: "1 < x" using False assms by (simp add: x_def)
  then have n: "0 < n" by (simp add: n_def)
  from bitlen_bounds [OF n] have b: "1 \<le> k" "2 ^ nat (k - 1) \<le> n" "n < 2 ^ nat k"
    by (simp_all add: k_def)
  have "(2::rat) powi (k - 1) = of_int (2 ^ nat (k - 1))"
    using b(1) by (simp add: power_int_def)
  also have "\<dots> \<le> of_int n" using b(2) by (simp only: of_int_le_iff)
  also have "\<dots> \<le> x" by (simp add: n_def)
  finally have xl: "2 powi (k - 1) \<le> x" .
  have "x < of_int (n + 1)" using floor_correct [of x] by (simp add: n_def)
  also have "\<dots> \<le> of_int (2 ^ nat k)"
    using b(3) by (simp only: of_int_le_iff)
  also have "\<dots> = (2::rat) powi k" using b(1) by (simp add: power_int_def)
  finally have xu: "x < 2 powi k" .
  have q: "q = 1 / x" using assms by (simp add: x_def)
  have qu: "q \<le> 2 powi (1 - k)"
  proof -
    have "1 / x \<le> 1 / 2 powi (k - 1)"
      using xl by (intro divide_left_mono) (simp_all add: mult_pos_pos x [THEN less_trans [OF zero_less_one]])
    also have "\<dots> = 2 powi (1 - k)"
      using power_int_minus_divide [of "2::rat" "k - 1"] by simp
    finally show ?thesis by (simp add: q)
  qed
  have ql: "2 powi (- k) < q"
  proof -
    have "1 / 2 powi k < 1 / x"
      using xu x by (intro divide_strict_left_mono) (simp_all add: mult_pos_pos)
    then show ?thesis by (simp add: q power_int_minus_divide)
  qed
  have fl: "floorLog2 q = (if 2 powi (1 - k) \<le> q then 1 - k else - k)"
    using False by (simp add: floorLog2_def Let_def x_def n_def k_def)
  show ?thesis
  proof (cases "2 powi (1 - k) \<le> q")
    case True
    have "q < 2 powi (1 - k + 1)"
    proof -
      have "q \<le> 2 powi (1 - k)" by (rule qu)
      also have "\<dots> < 2 powi (1 - k + 1)" by (intro power_int_strict_increasing) simp_all
      finally show ?thesis .
    qed
    with True show ?thesis by (simp add: fl)
  next
    case False
    then have "q < 2 powi (- k + 1)" by (simp add: add.commute)
    with False ql show ?thesis by (simp add: fl)
  qed
qed

lemma roundHalfEven_bounds: "\<lfloor>x\<rfloor> \<le> roundHalfEven x \<and> roundHalfEven x \<le> \<lfloor>x\<rfloor> + 1"
  by (simp add: roundHalfEven_def Let_def)

lemma roundHalfEven_of_int: "roundHalfEven (of_int n) = n"
  by (simp add: roundHalfEven_def)

lemma roundHalfEven_mono:
  assumes "x \<le> y"
  shows "roundHalfEven x \<le> roundHalfEven y"
proof (cases "\<lfloor>x\<rfloor> < \<lfloor>y\<rfloor>")
  case True
  have "roundHalfEven x \<le> \<lfloor>x\<rfloor> + 1" using roundHalfEven_bounds by blast
  also have "\<dots> \<le> \<lfloor>y\<rfloor>" using True by simp
  also have "\<dots> \<le> roundHalfEven y" using roundHalfEven_bounds by blast
  finally show ?thesis .
next
  case False
  moreover have "\<lfloor>x\<rfloor> \<le> \<lfloor>y\<rfloor>" using assms by (rule floor_mono)
  ultimately have same: "\<lfloor>x\<rfloor> = \<lfloor>y\<rfloor>" by simp
  have "x - of_int \<lfloor>y\<rfloor> \<le> y - of_int \<lfloor>y\<rfloor>" using assms by simp
  then show ?thesis
    unfolding roundHalfEven_def Let_def same by auto
qed

lemma floorLog2_unique:
  assumes "0 < q" and "2 powi e \<le> q" and "q < 2 powi (e + 1)"
  shows "floorLog2 q = e"
proof -
  from floorLog2_bounds [OF assms(1)]
  have lo: "2 powi floorLog2 q \<le> q" and hi: "q < 2 powi (floorLog2 q + 1)" by simp_all
  have "\<not> e < floorLog2 q"
  proof
    assume "e < floorLog2 q"
    then have "(2::rat) powi (e + 1) \<le> 2 powi floorLog2 q"
      by (intro power_int_increasing) simp_all
    with lo assms(3) show False by simp
  qed
  moreover have "\<not> floorLog2 q < e"
  proof
    assume "floorLog2 q < e"
    then have "(2::rat) powi (floorLog2 q + 1) \<le> 2 powi e"
      by (intro power_int_increasing) simp_all
    with hi assms(2) show False by simp
  qed
  ultimately show ?thesis by simp
qed

lemma floorLog2_mono:
  assumes "0 < a" and "a \<le> b"
  shows "floorLog2 a \<le> floorLog2 b"
proof (rule ccontr)
  assume "\<not> floorLog2 a \<le> floorLog2 b"
  then have "(2::rat) powi (floorLog2 b + 1) \<le> 2 powi floorLog2 a"
    by (intro power_int_increasing) simp_all
  moreover have "2 powi floorLog2 a \<le> a" using floorLog2_bounds [OF assms(1)] by simp
  moreover have "b < 2 powi (floorLog2 b + 1)"
    using floorLog2_bounds [of b] assms by simp
  ultimately show False using assms(2) by simp
qed

lemma pow2_split: "(2::rat) powi (a + b) = 2 powi a * 2 powi b"
  by (rule power_int_add) simp

lemma roundPos_upper:
  assumes "0 < q"
  shows "roundPos q \<le> 2 powi (max (floorLog2 q) (- 1022) + 1)"
proof -
  define e where "e = max (floorLog2 q) (- 1022)"
  define u :: rat where "u = 2 powi (e - 52)"
  have u: "0 < u" by (simp add: u_def)
  have top: "2 powi (e + 1) = of_int (2 ^ 53) * u"
    using pow2_split [of 53 "e - 52"] by (simp add: u_def add.commute)
  have "q < 2 powi (floorLog2 q + 1)" using floorLog2_bounds [OF assms] by simp
  also have "\<dots> \<le> 2 powi (e + 1)" by (intro power_int_increasing) (simp_all add: e_def)
  finally have "q / u < of_int (2 ^ 53)" using u by (simp add: top pos_divide_less_eq)
  then have "roundHalfEven (q / u) \<le> roundHalfEven (of_int (2 ^ 53))"
    by (intro roundHalfEven_mono) simp
  then have "roundHalfEven (q / u) \<le> 2 ^ 53" by (simp only: roundHalfEven_of_int)
  then have "(of_int (roundHalfEven (q / u)) :: rat) \<le> of_int (2 ^ 53)"
    by (simp only: of_int_le_iff)
  then have "of_int (roundHalfEven (q / u)) * u \<le> of_int (2 ^ 53) * u"
    using u by (simp only: mult_le_cancel_right_pos)
  then show ?thesis
    unfolding top [symmetric] by (simp add: roundPos_def Let_def e_def u_def)
qed

lemma roundPos_lower:
  assumes "0 < q" and "- 1022 \<le> floorLog2 q"
  shows "2 powi floorLog2 q \<le> roundPos q"
proof -
  define e where "e = floorLog2 q"
  define u :: rat where "u = 2 powi (e - 52)"
  have u: "0 < u" by (simp add: u_def)
  have bottom: "2 powi e = of_int (2 ^ 52) * u"
    using pow2_split [of 52 "e - 52"] by (simp add: u_def)
  have "2 powi e \<le> q" using floorLog2_bounds [OF assms(1)] by (simp add: e_def)
  then have "of_int (2 ^ 52) \<le> q / u" using u by (simp add: bottom pos_le_divide_eq)
  then have "roundHalfEven (of_int (2 ^ 52)) \<le> roundHalfEven (q / u)"
    by (rule roundHalfEven_mono)
  then have "2 ^ 52 \<le> roundHalfEven (q / u)" by (simp only: roundHalfEven_of_int)
  then have "(of_int (2 ^ 52) :: rat) \<le> of_int (roundHalfEven (q / u))"
    by (simp only: of_int_le_iff)
  then have "of_int (2 ^ 52) * u \<le> of_int (roundHalfEven (q / u)) * u"
    using u by (simp only: mult_le_cancel_right_pos)
  moreover have "max (floorLog2 q) (- 1022) = e" using assms(2) by (simp add: e_def)
  ultimately show ?thesis
    unfolding bottom [symmetric] by (simp add: roundPos_def Let_def u_def e_def)
qed

lemma roundPos_nonneg:
  assumes "0 < q"
  shows "0 \<le> roundPos q"
proof -
  define u :: rat where "u = 2 powi (max (floorLog2 q) (- 1022) - 52)"
  have u: "0 < u" by (simp add: u_def)
  then have "0 \<le> q / u" using assms by simp
  then have "0 \<le> \<lfloor>q / u\<rfloor>" by simp
  then have "0 \<le> roundHalfEven (q / u)" using roundHalfEven_bounds [of "q / u"] by linarith
  then show ?thesis using u by (simp add: roundPos_def Let_def u_def)
qed

lemma roundPos_mono:
  assumes "0 < a" and "a \<le> b"
  shows "roundPos a \<le> roundPos b"
proof -
  define ea where "ea = max (floorLog2 a) (- 1022)"
  define eb where "eb = max (floorLog2 b) (- 1022)"
  have b: "0 < b" using assms by simp
  have le: "ea \<le> eb" using floorLog2_mono [OF assms] by (simp add: ea_def eb_def)
  show ?thesis
  proof (cases "ea = eb")
    case True
    define u :: rat where "u = 2 powi (ea - 52)"
    have u: "0 < u" by (simp add: u_def)
    have "a / u \<le> b / u" using assms(2) u by (simp add: divide_right_mono)
    then have "roundHalfEven (a / u) \<le> roundHalfEven (b / u)" by (rule roundHalfEven_mono)
    then have "(of_int (roundHalfEven (a / u)) :: rat) * u \<le> of_int (roundHalfEven (b / u)) * u"
      using u by simp
    then show ?thesis
      using True by (simp add: roundPos_def Let_def u_def ea_def eb_def)
  next
    case False
    with le have less: "ea < eb" by simp
    then have normal: "- 1022 \<le> floorLog2 b" and eb: "eb = floorLog2 b"
      unfolding ea_def eb_def by linarith+
    have "roundPos a \<le> 2 powi (ea + 1)" using roundPos_upper [OF assms(1)] by (simp add: ea_def)
    also have "\<dots> \<le> 2 powi eb" using less by (intro power_int_increasing) simp_all
    also have "\<dots> \<le> roundPos b" using roundPos_lower [OF b normal] by (simp add: eb)
    finally show ?thesis .
  qed
qed

lemma floorLog2_zero: "floorLog2 0 = 0"
  by (simp add: floorLog2_def Let_def bitlen.simps)

lemma roundPos_zero: "roundPos 0 = 0"
  by (simp add: roundPos_def roundHalfEven_def Let_def)

lemma roundPos_idem:
  assumes "0 < q"
  shows "roundPos (roundPos q) = roundPos q"
proof (cases "roundPos q = 0")
  case True
  then show ?thesis by (simp add: roundPos_zero)
next
  case False
  define e where "e = max (floorLog2 q) (- 1022)"
  define u :: rat where "u = 2 powi (e - 52)"
  define m where "m = roundHalfEven (q / u)"
  define v where "v = roundPos q"
  define e' where "e' = max (floorLog2 v) (- 1022)"
  define u' :: rat where "u' = 2 powi (e' - 52)"
  have v: "v = of_int m * u" by (simp add: v_def roundPos_def Let_def m_def u_def e_def)
  have pos: "0 < v" using False roundPos_nonneg [OF assms] by (simp add: v_def)
  have u': "0 < u'" by (simp add: u'_def)
  have top: "v \<le> 2 powi (e + 1)" using roundPos_upper [OF assms] by (simp add: v_def e_def)
  have "\<exists>n::int. v / u' = of_int n"
  proof (cases "v = 2 powi (e + 1)")
    case True
    have "v < 2 powi (e + 1 + 1)"
      unfolding True by (intro power_int_strict_increasing) simp_all
    then have "floorLog2 v = e + 1" using pos True by (intro floorLog2_unique) simp_all
    then have "e' = e + 1" by (simp add: e'_def e_def)
    then have "v = of_int (2 ^ 52) * u'"
      using pow2_split [of 52 "e + 1 - 52"] by (simp add: True u'_def add.commute)
    then have "v / u' = of_int (2 ^ 52)" using u' by simp
    then show ?thesis by blast
  next
    case False
    with top have less: "v < 2 powi (e + 1)" by simp
    have "\<not> e + 1 \<le> floorLog2 v"
    proof
      assume "e + 1 \<le> floorLog2 v"
      then have "(2::rat) powi (e + 1) \<le> 2 powi floorLog2 v"
        by (intro power_int_increasing) simp_all
      also have "\<dots> \<le> v" using floorLog2_bounds [OF pos] by simp
      finally show False using less by simp
    qed
    then have le: "e' \<le> e" by (simp add: e'_def e_def)
    have "u = 2 powi (e - e') * u'"
      using pow2_split [of "e - e'" "e' - 52"] by (simp add: u_def u'_def)
    also have "(2::rat) powi (e - e') = of_int (2 ^ nat (e - e'))"
      using le by (simp add: power_int_def)
    finally have "v = of_int (m * 2 ^ nat (e - e')) * u'" by (simp add: v)
    then have "v / u' = of_int (m * 2 ^ nat (e - e'))" using u' by simp
    then show ?thesis by blast
  qed
  then obtain n :: int where n: "v / u' = of_int n" by blast
  have "roundPos v = of_int (roundHalfEven (v / u')) * u'"
    by (simp add: roundPos_def Let_def u'_def e'_def)
  also have "\<dots> = of_int n * u'" by (simp only: n roundHalfEven_of_int)
  also have "\<dots> = v" using n u' by (simp add: field_simps)
  finally show ?thesis by (simp add: v_def)
qed

lemma toDouble_fixed:
  assumes "toDouble q = Finite v"
  shows "toDouble v = Finite v"
proof -
  consider "q = 0" | "0 < q" | "q < 0" by linarith
  then show ?thesis
  proof cases
    case 1
    with assms show ?thesis by (simp add: toDouble_def)
  next
    case 2
    with assms have v: "v = roundPos q" and small: "\<not> 1024 \<le> floorLog2 v"
      by (auto simp: toDouble_def split: if_splits)
    have "roundPos v = v" unfolding v using 2 by (rule roundPos_idem)
    moreover have "0 \<le> v" unfolding v using 2 by (rule roundPos_nonneg)
    ultimately show ?thesis using small by (simp add: toDouble_def)
  next
    case 3
    define w where "w = roundPos (- q)"
    from 3 assms have v: "v = - w" and small: "\<not> 1024 \<le> floorLog2 w"
      by (auto simp: toDouble_def w_def split: if_splits)
    have "roundPos w = w" unfolding w_def using 3 by (intro roundPos_idem) simp
    moreover have "0 \<le> w" unfolding w_def using 3 by (intro roundPos_nonneg) simp
    ultimately show ?thesis using small by (simp add: toDouble_def v)
  qed
qed

lemma toDouble_le:
  assumes "0 \<le> a" and "a \<le> b" and "toDouble b = Finite b"
  shows "\<exists>t. toDouble a = Finite t \<and> 0 \<le> t \<and> t \<le> b"
proof (cases "a = 0")
  case True
  with assms show ?thesis by (simp add: toDouble_def)
next
  case False
  with assms have a: "0 < a" and b: "0 < b" by simp_all
  from assms(3) b have fixed: "roundPos b = b" and small: "\<not> 1024 \<le> floorLog2 b"
    by (auto simp: toDouble_def split: if_splits)
  have le: "roundPos a \<le> b" using roundPos_mono [OF a assms(2)] by (simp add: fixed)
  have nonneg: "0 \<le> roundPos a" using a by (rule roundPos_nonneg)
  have "\<not> 1024 \<le> floorLog2 (roundPos a)"
  proof (cases "roundPos a = 0")
    case True
    then show ?thesis by (simp add: floorLog2_zero)
  next
    case False
    with nonneg have "0 < roundPos a" by simp
    then have "floorLog2 (roundPos a) \<le> floorLog2 b" using le by (rule floorLog2_mono)
    with small show ?thesis by simp
  qed
  then have "toDouble a = Finite (roundPos a)" using a by (simp add: toDouble_def)
  with nonneg le show ?thesis by blast
qed

section \<open>Properties of the engine\<close>

lemmas prompt_defs = detailsPrompt_def helpPrompt_def retryPrompt_def thanks_def okay_def

lemmas string_defs = js_def toLowerCase_def lowerUnit_def

text \<open>
  C3. In state \<open>awaiting_tax_request\<close>, for every utterance: when the lowered utterance
  contains \<open>tax\<close> the reply is the details prompt and the next state is
  \<open>awaiting_tax_details\<close>; otherwise, when it contains \<open>no\<close>, the reply is
  ``Thanks, have a nice day!'' and the next state is \<open>awaiting_anything_else\<close>; otherwise the
  reply is the instructional prompt and the state is unchanged. The test for \<open>tax\<close> comes
  first: an utterance that contains both takes the tax branch.
\<close>

theorem awaiting_tax_request_dispatch:
  "handleBotResponse awaiting_tax_request u =
     (if includes_js (toLowerCase u) (js ''tax'')
      then (js ''Sure! Please include your information like so, \"hours: 40, rate: 35, state: NY, county: Kings, city: NYC\".'',
            awaiting_tax_details)
      else if includes_js (toLowerCase u) (js ''no'')
      then (js ''Thanks, have a nice day!'', awaiting_anything_else)
      else (js ''I can help you calculate taxes. Please type \"please calculate my taxes\" to begin.'',
            awaiting_tax_request))
   \<and> (includes_js (toLowerCase u) (js ''tax'') \<and> includes_js (toLowerCase u) (js ''no'') \<longrightarrow>
        handleBotResponse awaiting_tax_request u = (detailsPrompt, awaiting_tax_details))"
  by (simp add: prompt_defs)

theorem awaiting_tax_request_dispatch_witness:
  "includes_js (toLowerCase (js ''No TAXES'')) (js ''tax'')
   \<and> includes_js (toLowerCase (js ''No TAXES'')) (js ''no'')
   \<and> handleBotResponse awaiting_tax_request (js ''No TAXES'') = (detailsPrompt, awaiting_tax_details)
   \<and> handleBotResponse awaiting_tax_request (js ''Not now'')
       = (js ''Thanks, have a nice day!'', awaiting_anything_else)
   \<and> handleBotResponse awaiting_tax_request (js ''hello'')
       = (js ''I can help you calculate taxes. Please type \"please calculate my taxes\" to begin.'',
          awaiting_tax_request)"
  using awaiting_tax_request_dispatch [of "js ''No TAXES''"]
        awaiting_tax_request_dispatch [of "js ''Not now''"]
        awaiting_tax_request_dispatch [of "js ''hello''"]
  by (simp add: string_defs)

text \<open>
  C4. In state \<open>awaiting_anything_else\<close>, for every utterance: when the lowered utterance
  contains \<open>no\<close> the reply is ``Thanks, have a nice day!'' and the next state is
  \<open>awaiting_tax_request\<close>; otherwise, when it contains \<open>tax\<close>, the reply is the details prompt
  and the next state is \<open>awaiting_tax_details\<close>; otherwise the reply is ``Okay! Let me know
  if you would like me to calculate taxes again.'' and the next state is
  \<open>awaiting_tax_request\<close>. Here the test for \<open>no\<close> comes first.
\<close>

theorem awaiting_anything_else_dispatch:
  "handleBotResponse awaiting_anything_else u =
     (if includes_js (toLowerCase u) (js ''no'')
      then (js ''Thanks, have a nice day!'', awaiting_tax_request)
      else if includes_js (toLowerCase u) (js ''tax'')
      then (js ''Sure! Please include your information like so, \"hours: 40, rate: 35, state: NY, county: Kings, city: NYC\".'',
            awaiting_tax_details)
      else (js ''Okay! Let me know if you would like me to calculate taxes again.'',
            awaiting_tax_request))
   \<and> (includes_js (toLowerCase u) (js ''no'') \<and> includes_js (toLowerCase u) (js ''tax'') \<longrightarrow>
        handleBotResponse awaiting_anything_else u = (thanks, awaiting_tax_request))"
  by (simp add: prompt_defs)

theorem awaiting_anything_else_dispatch_witness:
  "includes_js (toLowerCase (js ''No TAXES'')) (js ''no'')
   \<and> includes_js (toLowerCase (js ''No TAXES'')) (js ''tax'')
   \<and> handleBotResponse awaiting_anything_else (js ''No TAXES'') = (thanks, awaiting_tax_request)
   \<and> handleBotResponse awaiting_anything_else (js ''my Taxes'')
       = (js ''Sure! Please include your information like so, \"hours: 40, rate: 35, state: NY, county: Kings, city: NYC\".'',
          awaiting_tax_details)
   \<and> handleBotResponse awaiting_anything_else (js ''hello'')
       = (js ''Okay! Let me know if you would like me to calculate taxes again.'',
          awaiting_tax_request)"
  using awaiting_anything_else_dispatch [of "js ''No TAXES''"]
        awaiting_anything_else_dispatch [of "js ''my Taxes''"]
        awaiting_anything_else_dispatch [of "js ''hello''"]
  by (simp add: string_defs)

text \<open>
  C7. In state \<open>idle\<close>, the only state outside the three that the dispatch names, every
  utterance is answered by ``Okay! Let me know if you would like me to calculate taxes
  again.'' and the next state is \<open>awaiting_anything_else\<close>.
\<close>

theorem default_branch:
  assumes "s \<noteq> awaiting_tax_request" and "s \<noteq> awaiting_tax_details"
    and "s \<noteq> awaiting_anything_else"
  shows "handleBotResponse s u =
           (js ''Okay! Let me know if you would like me to calculate taxes again.'',
            awaiting_anything_else)"
  using assms by (cases s) (simp_all add: prompt_defs)

theorem default_branch_witness:
  "idle \<noteq> awaiting_tax_request \<and> idle \<noteq> awaiting_tax_details \<and> idle \<noteq> awaiting_anything_else
   \<and> handleBotResponse idle (js ''calculate my taxes'') =
       (js ''Okay! Let me know if you would like me to calculate taxes again.'',
        awaiting_anything_else)"
  using default_branch [of idle "js ''calculate my taxes''"] by simp

lemma no_info_no_match: "match_js regex (js ''I don't have that info'') = None"
  by (simp add: js_def regex_defs cong: option.case_cong_weak)

text \<open>
  C2, as amended. In state \<open>awaiting_tax_details\<close>, an utterance that the pattern does not
  match is answered by the fixed retry prompt of that state, ``Please include your
  information like so, ...'', and the state stays \<open>awaiting_tax_details\<close>; so submitting
  such an utterance any number of times yields that same prompt every time and the state
  never advances. The retry prompt is a text of its own: it is not the instructional
  prompt ``I can help you calculate taxes. ...'' of \<open>awaiting_tax_request\<close>.
\<close>

theorem retry_on_no_match:
  assumes "match_js regex u = None"
  shows "handleBotResponse awaiting_tax_details u =
           (js ''Please include your information like so, \"hours: 40, rate: 35, state: NY, county: Kings, city: NYC\".'',
            awaiting_tax_details)
         \<and> exchange awaiting_tax_details (replicate n u) =
           (replicate n (js ''Please include your information like so, \"hours: 40, rate: 35, state: NY, county: Kings, city: NYC\".''),
            awaiting_tax_details)
         \<and> fst (handleBotResponse awaiting_tax_details u)
           \<noteq> js ''I can help you calculate taxes. Please type \"please calculate my taxes\" to begin.''"
proof -
  have one: "handleBotResponse awaiting_tax_details u = (retryPrompt, awaiting_tax_details)"
    using assms by simp
  have "exchange awaiting_tax_details (replicate n u) =
          (replicate n retryPrompt, awaiting_tax_details)"
    by (induction n) (simp_all add: one del: handleBotResponse.simps)
  moreover have "retryPrompt
      \<noteq> js ''I can help you calculate taxes. Please type \"please calculate my taxes\" to begin.''"
    by (simp add: retryPrompt_def js_def)
  ultimately show ?thesis unfolding one by (simp add: retryPrompt_def)
qed

theorem retry_on_no_match_witness:
  "match_js regex (js ''I don't have that info'') = None
   \<and> handleBotResponse awaiting_tax_details (js ''I don't have that info'') =
       (js ''Please include your information like so, \"hours: 40, rate: 35, state: NY, county: Kings, city: NYC\".'',
        awaiting_tax_details)
   \<and> exchange awaiting_tax_details (replicate 3 (js ''I don't have that info'')) =
       (replicate 3 (js ''Please include your information like so, \"hours: 40, rate: 35, state: NY, county: Kings, city: NYC\".''),
        awaiting_tax_details)"
  using retry_on_no_match [OF no_info_no_match, of 3] no_info_no_match by simp

theorem retry_prompt_counterexample:
  "match_js regex (js ''I don't have that info'') = None
   \<and> fst (handleBotResponse awaiting_tax_details (js ''I don't have that info''))
     = js ''Please include your information like so, \"hours: 40, rate: 35, state: NY, county: Kings, city: NYC\".''
   \<and> fst (handleBotResponse awaiting_tax_request (js ''I don't have that info''))
     = js ''I can help you calculate taxes. Please type \"please calculate my taxes\" to begin.''
   \<and> fst (handleBotResponse awaiting_tax_details (js ''I don't have that info''))
     \<noteq> fst (handleBotResponse awaiting_tax_request (js ''I don't have that info''))"
proof -
  have details: "handleBotResponse awaiting_tax_details (js ''I don't have that info'')
                   = (retryPrompt, awaiting_tax_details)"
    using no_info_no_match by simp
  have request: "handleBotResponse awaiting_tax_request (js ''I don't have that info'')
                   = (helpPrompt, awaiting_tax_request)"
    by (simp add: string_defs)
  show ?thesis
    unfolding details request using no_info_no_match
    by (simp add: retryPrompt_def helpPrompt_def js_def)
qed

lemma handleBotResponse_not_idle: "snd (handleBotResponse s u) \<noteq> idle"
  by (cases s) (auto simp: Let_def split: option.splits list.splits)

lemma handleSend_not_idle: "state c \<noteq> idle \<Longrightarrow> state (handleSend c) \<noteq> idle"
  by (simp add: handleSend_def Let_def handleBotResponse_not_idle)

lemma dispatch_not_idle: "state c \<noteq> idle \<Longrightarrow> state (dispatch c e) \<noteq> idle"
  by (cases e) (simp_all add: handleKeyPress_def handleSend_not_idle)

lemma foldl_dispatch_not_idle: "state c \<noteq> idle \<Longrightarrow> state (foldl dispatch c es) \<noteq> idle"
  by (induction es arbitrary: c) (simp_all add: dispatch_not_idle)

text \<open>
  C9. The engine never returns the state \<open>idle\<close>: from every state and for every utterance
  the next state is one of \<open>awaiting_tax_request\<close>, \<open>awaiting_tax_details\<close> and
  \<open>awaiting_anything_else\<close>. Hence, once the mount effect has set the state to
  \<open>awaiting_tax_request\<close>, no sequence of events brings the component back to \<open>idle\<close>.
\<close>

theorem idle_never_reentered:
  "snd (handleBotResponse s u) \<in> {awaiting_tax_request, awaiting_tax_details, awaiting_anything_else}
   \<and> state (session es) \<noteq> idle"
proof
  show "snd (handleBotResponse s u) \<in>
          {awaiting_tax_request, awaiting_tax_details, awaiting_anything_else}"
    using handleBotResponse_not_idle [of s u] by (cases "snd (handleBotResponse s u)") simp_all
  show "state (session es) \<noteq> idle"
    unfolding session_def by (rule foldl_dispatch_not_idle) (simp add: mountEffect_def)
qed

theorem idle_never_reentered_witness:
  "snd (handleBotResponse idle (js ''hello'')) = awaiting_anything_else
   \<and> state (session [Change (js ''no''), Click, Change (js ''x''), KeyDown ''Enter'']) \<noteq> idle"
  using idle_never_reentered [of idle "js ''hello''"
          "[Change (js ''no''), Click, Change (js ''x''), KeyDown ''Enter'']"]
  by simp

section \<open>Properties of the component\<close>

lemma trim_empty_iff: "trim s = [] \<longleftrightarrow> list_all isWhiteSpace s"
proof
  assume "trim s = []"
  then have "dropWhile isWhiteSpace (rev (dropWhile isWhiteSpace s)) = []"
    by (simp add: trim_def)
  then have all: "\<forall>x \<in> set (dropWhile isWhiteSpace s). isWhiteSpace x"
    by (simp add: dropWhile_eq_Nil_conv)
  have "dropWhile isWhiteSpace s = []"
  proof (cases "dropWhile isWhiteSpace s")
    case Nil
    then show ?thesis .
  next
    case (Cons y ys)
    then have "\<not> isWhiteSpace y" using hd_dropWhile [of isWhiteSpace s] by simp
    moreover have "isWhiteSpace y" using all Cons by simp
    ultimately show ?thesis by simp
  qed
  then show "list_all isWhiteSpace s"
    by (simp add: dropWhile_eq_Nil_conv list_all_iff)
next
  assume "list_all isWhiteSpace s"
  then have blank: "dropWhile isWhiteSpace s = []"
    by (simp add: dropWhile_eq_Nil_conv list_all_iff)
  show "trim s = []" unfolding trim_def blank by simp
qed

text \<open>
  C6. When the text of the input box is empty or holds white space only, sending leaves the
  component as it is: the message list, the state and the input box are unchanged, whether
  the send comes from the button or from the Enter key.
\<close>

theorem blank_input_ignored:
  assumes "list_all isWhiteSpace (input c)"
  shows "handleSend c = c \<and> dispatch c Click = c \<and> dispatch c (KeyDown key) = c"
proof -
  from assms have "trim (input c) = []" by (simp add: trim_empty_iff)
  then have "handleSend c = c" by (simp add: handleSend_def)
  then show ?thesis by (simp add: handleKeyPress_def)
qed

theorem blank_input_ignored_witness:
  "list_all isWhiteSpace (input \<lparr>messages = [initialMessage], input = [32, 9, 160, 10],
                                 state = awaiting_tax_details\<rparr>)
   \<and> list_all isWhiteSpace (input (mountEffect initial))
   \<and> handleSend \<lparr>messages = [initialMessage], input = [32, 9, 160, 10],
                  state = awaiting_tax_details\<rparr>
       = \<lparr>messages = [initialMessage], input = [32, 9, 160, 10], state = awaiting_tax_details\<rparr>
   \<and> dispatch (mountEffect initial) (KeyDown ''Enter'') = mountEffect initial"
  using blank_input_ignored [of "\<lparr>messages = [initialMessage], input = [32, 9, 160, 10],
                                  state = awaiting_tax_details\<rparr>" "''Enter''"]
        blank_input_ignored [of "mountEffect initial" "''Enter''"]
  by (simp add: isWhiteSpace_def isLineTerminator_def mountEffect_def initial_def)

lemma handleSend_messages:
  "messages (handleSend c) =
     (if trim (input c) = [] then messages c
      else messages c @
        [\<lparr>sender = user_sender, text_js = input c\<rparr>,
         \<lparr>sender = bot_sender, text_js = fst (handleBotResponse (state c) (input c))\<rparr>])"
  by (simp add: handleSend_def Let_def)

lemma handleSend_state:
  "state (handleSend c) =
     (if trim (input c) = [] then state c else snd (handleBotResponse (state c) (input c)))"
  by (simp add: handleSend_def Let_def)

lemma responds_sound:
  assumes "responds c u r c'"
  shows "r = fst (handleBotResponse (state c) u)
         \<and> c' = c\<lparr>state := snd (handleBotResponse (state c) u)\<rparr>"
  using assms
proof cases
  case fallback
  then have "state c = idle" by (cases "state c") simp_all
  with fallback show ?thesis by simp
qed (simp_all add: Let_def)

lemma state_update_same: "state c = s \<Longrightarrow> c\<lparr>state := s\<rparr> = c"
  by (cases c) simp

lemma responds_complete:
  "responds c u (fst (handleBotResponse (state c) u))
     (c\<lparr>state := snd (handleBotResponse (state c) u)\<rparr>)"
proof (cases "state c")
  case idle
  then show ?thesis using responds.fallback [of c u] by simp
next
  case awaiting_tax_request
  then show ?thesis
    using request_tax [of c u] request_no [of c u] request_help [of c u]
    by (auto simp: Let_def state_update_same)
next
  case awaiting_anything_else
  then show ?thesis
    using else_no [of c u] else_tax [of c u] else_okay [of c u]
    by (auto simp: Let_def)
next
  case awaiting_tax_details
  show ?thesis
  proof (cases "match_js regex u")
    case None
    with awaiting_tax_details show ?thesis
      using details_retry [of c u] by (simp add: state_update_same)
  next
    case (Some m)
    then obtain m1 m2 m3 m4 m5 where m: "m = [m1, m2, m3, m4, m5]"
      using five_groups by blast
    with Some awaiting_tax_details show ?thesis
      using details_estimate [of c u m1 m2 m3 m4 m5, OF _ _ refl refl refl]
      by (simp add: Let_def)
  qed
qed

text \<open>
  C10. The engine is deterministic. The response function, taken as the closure of the
  source with the whole render scope in reach, always returns; any two calls in scopes
  that agree on the state, with the same utterance, return the same reply and set the same
  next state, whatever the message lists and input boxes of the two scopes hold; a call
  changes nothing of its scope but the state; and what it returns is what the function
  \<open>handleBotResponse\<close> of the state and the utterance computes.
\<close>

theorem responds_deterministic:
  "(\<exists>r c'. responds c u r c')
   \<and> (state c1 = state c2 \<and> responds c1 u r1 c1' \<and> responds c2 u r2 c2'
        \<longrightarrow> r1 = r2 \<and> state c1' = state c2'
            \<and> messages c1' = messages c1 \<and> input c1' = input c1)
   \<and> (responds c u r c' \<and> responds c u r' c'' \<longrightarrow> r = r' \<and> c' = c'')
   \<and> (responds c u r c' \<longleftrightarrow>
        (r, c') = (fst (handleBotResponse (state c) u),
                   c\<lparr>state := snd (handleBotResponse (state c) u)\<rparr>))"
proof (intro conjI impI)
  show "\<exists>r c'. responds c u r c'" using responds_complete by blast
next
  assume "state c1 = state c2 \<and> responds c1 u r1 c1' \<and> responds c2 u r2 c2'"
  then have same: "state c1 = state c2" and one: "responds c1 u r1 c1'"
    and two: "responds c2 u r2 c2'" by simp_all
  from responds_sound [OF one] responds_sound [OF two] same
  show "r1 = r2" and "state c1' = state c2'" and "messages c1' = messages c1"
    and "input c1' = input c1" by simp_all
next
  assume "responds c u r c' \<and> responds c u r' c''"
  then have "responds c u r c'" and "responds c u r' c''" by simp_all
  then show "r = r'" and "c' = c''"
    using responds_sound by blast+
next
  show "responds c u r c' \<longleftrightarrow>
        (r, c') = (fst (handleBotResponse (state c) u),
                   c\<lparr>state := snd (handleBotResponse (state c) u)\<rparr>)"
    using responds_sound [of c u r c'] responds_complete [of c u] by auto
qed

theorem responds_deterministic_witness:
  "state \<lparr>messages = [], input = js ''later'', state = awaiting_anything_else\<rparr>
     = state \<lparr>messages = [initialMessage], input = [], state = awaiting_anything_else\<rparr>
   \<and> responds \<lparr>messages = [], input = js ''later'', state = awaiting_anything_else\<rparr>
         (js ''No thanks'') thanks
         \<lparr>messages = [], input = js ''later'', state = awaiting_tax_request\<rparr>
   \<and> responds \<lparr>messages = [initialMessage], input = [], state = awaiting_anything_else\<rparr>
         (js ''No thanks'') thanks
         \<lparr>messages = [initialMessage], input = [], state = awaiting_tax_request\<rparr>
   \<and> state \<lparr>messages = [], input = js ''later'', state = awaiting_tax_request\<rparr>
     = state \<lparr>messages = [initialMessage], input = [], state = awaiting_tax_request\<rparr>
   \<and> \<not> responds \<lparr>messages = [], input = js ''later'', state = awaiting_anything_else\<rparr>
         (js ''No thanks'') okay
         \<lparr>messages = [], input = js ''later'', state = awaiting_tax_request\<rparr>"
proof -
  let ?c1 = "\<lparr>messages = [], input = js ''later'', state = awaiting_anything_else\<rparr>"
  let ?c2 = "\<lparr>messages = [initialMessage], input = [], state = awaiting_anything_else\<rparr>"
  let ?u = "js ''No thanks''"
  have no: "includes_js (toLowerCase ?u) (js ''no'')"
    by (simp add: string_defs)
  have same: "state ?c1 = state ?c2" by simp
  have one: "responds ?c1 ?u thanks (?c1\<lparr>state := awaiting_tax_request\<rparr>)"
    by (rule else_no) (simp_all add: no)
  have two: "responds ?c2 ?u thanks (?c2\<lparr>state := awaiting_tax_request\<rparr>)"
    by (rule else_no) (simp_all add: no)
  have differ: "okay \<noteq> thanks" by (simp add: okay_def thanks_def js_def)
  from responds_deterministic
         [of _ ?u ?c1 ?c2 thanks "?c1\<lparr>state := awaiting_tax_request\<rparr>"
             thanks "?c2\<lparr>state := awaiting_tax_request\<rparr>"]
       same one two
  have next_state: "state (?c1\<lparr>state := awaiting_tax_request\<rparr>)
                      = state (?c2\<lparr>state := awaiting_tax_request\<rparr>)"
    by blast
  have other: "\<not> responds ?c1 ?u okay (?c1\<lparr>state := awaiting_tax_request\<rparr>)"
  proof
    assume "responds ?c1 ?u okay (?c1\<lparr>state := awaiting_tax_request\<rparr>)"
    with one
      responds_deterministic
        [of ?c1 ?u _ _ _ _ _ _ okay "?c1\<lparr>state := awaiting_tax_request\<rparr>"
            thanks "?c1\<lparr>state := awaiting_tax_request\<rparr>"]
    have "okay = thanks" by blast
    with differ show False by simp
  qed
  from same one two next_state other show ?thesis by simp
qed

lemma dispatch_extends: "\<exists>ys. messages (dispatch c e) = messages c @ ys"
  by (cases e) (simp_all add: handleKeyPress_def handleSend_messages)

lemma foldl_dispatch_extends: "\<exists>ys. messages (foldl dispatch c es) = messages c @ ys"
proof (induction es arbitrary: c)
  case Nil
  show ?case by simp
next
  case (Cons e es)
  obtain ys where "messages (foldl dispatch (dispatch c e) es) = messages (dispatch c e) @ ys"
    using Cons.IH by blast
  moreover obtain zs where "messages (dispatch c e) = messages c @ zs"
    using dispatch_extends by blast
  ultimately show ?case by simp
qed

lemma reply_not_greeting: "fst (handleBotResponse s u) \<noteq> text_js initialMessage"
  by (cases s)
    (auto simp: Let_def initialMessage_def prompt_defs estimate_def js_def
          split: option.splits list.splits)

lemma handleSend_count:
  "count_list (messages (handleSend c)) initialMessage = count_list (messages c) initialMessage"
proof -
  have "\<lparr>sender = bot_sender, text_js = fst (handleBotResponse (state c) (input c))\<rparr>
          \<noteq> initialMessage"
    using reply_not_greeting [of "state c" "input c"] by (auto simp: initialMessage_def)
  moreover have "\<lparr>sender = user_sender, text_js = input c\<rparr> \<noteq> initialMessage"
    by (simp add: initialMessage_def)
  ultimately show ?thesis by (simp add: handleSend_messages)
qed

lemma dispatch_count:
  "count_list (messages (dispatch c e)) initialMessage = count_list (messages c) initialMessage"
  by (cases e) (simp_all add: handleKeyPress_def handleSend_count)

lemma foldl_dispatch_count:
  "count_list (messages (foldl dispatch c es)) initialMessage
     = count_list (messages c) initialMessage"
  by (induction es arbitrary: c) (simp_all add: dispatch_count)

text \<open>
  C8, as amended. In every session the message list only grows at its end. After the mount
  effect it is the single bot greeting ``Hello, my name is Jacob. How can I help you?'' and
  the state is \<open>awaiting_tax_request\<close>; after any events the greeting is still the first
  message and occurs exactly once; the list before further events is an initial segment
  of the list after them; an edit of the input box changes no message; and a send whose
  input is not empty or white space only appends exactly two messages, the user's text
  and then the reply of the engine.

  The claim as written speaks of every non-empty submission: a submission of blanks is
  not empty, and it appends nothing.
\<close>

theorem messages_append_only:
  "messages (session []) =
     [\<lparr>sender = bot_sender, text_js = js ''Hello, my name is Jacob. How can I help you?''\<rparr>]
   \<and> state (session []) = awaiting_tax_request
   \<and> take 1 (messages (session es)) = [initialMessage]
   \<and> count_list (messages (session es)) initialMessage = 1
   \<and> take (length (messages (session es))) (messages (session (es @ es'))) = messages (session es)
   \<and> messages (dispatch c (Change v)) = messages c
   \<and> (trim (input c) \<noteq> [] \<longrightarrow>
        messages (handleSend c) =
          messages c @
            [\<lparr>sender = user_sender, text_js = input c\<rparr>,
             \<lparr>sender = bot_sender, text_js = fst (handleBotResponse (state c) (input c))\<rparr>])"
proof -
  have start: "messages (mountEffect initial) = [initialMessage]"
    by (simp add: mountEffect_def)
  obtain ys where ys: "messages (session es) = [initialMessage] @ ys"
    using foldl_dispatch_extends [of "mountEffect initial" es] start
    by (auto simp: session_def)
  obtain zs where zs: "messages (session (es @ es')) = messages (session es) @ zs"
    using foldl_dispatch_extends [of "session es" es'] by (auto simp: session_def)
  have "count_list (messages (session es)) initialMessage = 1"
    unfolding session_def foldl_dispatch_count start by simp
  with ys zs show ?thesis
    by (simp add: session_def mountEffect_def initialMessage_def handleSend_messages)
qed

theorem messages_append_only_witness:
  "trim (input (session [Change (js ''my taxes'')])) \<noteq> []
   \<and> messages (handleSend (session [Change (js ''my taxes'')])) =
       [initialMessage,
        \<lparr>sender = user_sender, text_js = js ''my taxes''\<rparr>,
        \<lparr>sender = bot_sender, text_js = detailsPrompt\<rparr>]
   \<and> take 1 (messages (session [Change (js ''my taxes''), Click])) = [initialMessage]
   \<and> count_list (messages (session [Change (js ''my taxes''), Click])) initialMessage = 1"
proof -
  let ?c = "session [Change (js ''my taxes'')]"
  let ?es = "[Change (js ''my taxes''), Click]"
  note inst = messages_append_only [of ?es "[]" ?c]
  have inp: "input ?c = js ''my taxes''" and st: "state ?c = awaiting_tax_request"
    and ms: "messages ?c = [initialMessage]"
    by (simp_all add: session_def mountEffect_def initial_def)
  have blank: "trim (input ?c) \<noteq> []"
    unfolding inp by (simp add: trim_empty_iff js_def isWhiteSpace_def isLineTerminator_def)
  have reply: "fst (handleBotResponse (state ?c) (input ?c)) = detailsPrompt"
    unfolding inp st by (simp add: string_defs)
  from inst blank have
    "messages (handleSend ?c) =
       messages ?c @
         [\<lparr>sender = user_sender, text_js = input ?c\<rparr>,
          \<lparr>sender = bot_sender, text_js = fst (handleBotResponse (state ?c) (input ?c))\<rparr>]"
    by blast
  then have sent: "messages (handleSend ?c) =
       [initialMessage,
        \<lparr>sender = user_sender, text_js = js ''my taxes''\<rparr>,
        \<lparr>sender = bot_sender, text_js = detailsPrompt\<rparr>]"
    unfolding reply unfolding inp ms by simp
  from inst have first: "take 1 (messages (session ?es)) = [initialMessage]"
    and once: "count_list (messages (session ?es)) initialMessage = 1"
    by blast+
  from blank sent first once show ?thesis by blast
qed

theorem blank_submission_counterexample:
  "input \<lparr>messages = [initialMessage], input = js '' '', state = awaiting_tax_request\<rparr> \<noteq> []
   \<and> messages (handleSend \<lparr>messages = [initialMessage], input = js '' '',
                            state = awaiting_tax_request\<rparr>) = [initialMessage]"
  by (simp add: handleSend_messages trim_empty_iff js_def isWhiteSpace_def)

section \<open>Properties of the details state and of the two variants\<close>

lemma matched_reply:
  assumes "match_js regex u = Some [m1, m2, m3, m4, m5]"
  shows "handleBotResponse awaiting_tax_details u =
           (estimate m5 m4 m3
              (toFixed (mul (parseFloat m1) (parseFloat m2)) 2)
              (toFixed (mul (mul (parseFloat m1) (parseFloat m2)) totalRate) 2)
              (toFixed (sub (mul (parseFloat m1) (parseFloat m2))
                            (mul (mul (parseFloat m1) (parseFloat m2)) totalRate)) 2),
            awaiting_anything_else)"
  using assms by (simp add: Let_def)

lemma matched_reply_v2:
  assumes "match_js regex u = Some [m1, m2, m3, m4, m5]"
  shows "handleBotResponse_v2 awaiting_tax_details u =
           (estimate_v2 m5 m4 m3
              (toFixed (mul (parseFloat m1) (parseFloat m2)) 2)
              (toFixed (mul (mul (parseFloat m1) (parseFloat m2)) totalRate) 2)
              (toFixed (sub (mul (parseFloat m1) (parseFloat m2))
                            (mul (mul (parseFloat m1) (parseFloat m2)) totalRate)) 2),
            awaiting_anything_else)"
  using assms by (simp add: Let_def)

lemma slots_example:
  "match_js regex (js ''hours: 40, rate: 35, state: NY, county: Kings, city: NYC'')
     = Some [js ''40'', js ''35'', js ''NY'', js ''Kings'', js ''NYC'']"
  by (simp add: js_def regex_defs cong: option.case_cong_weak)

lemma totalRate_value: "totalRate = Finite (3062447746611937 / 18014398509481984)"
  by code_simp

lemma mul_Finite_fixed:
  assumes "mul x y = Finite v"
  shows "toDouble v = Finite v"
  using assms by (cases x; cases y) (auto split: if_splits dest: toDouble_fixed)

lemma toDouble_nonneg:
  assumes "0 \<le> q" and "toDouble q = Finite v"
  shows "0 \<le> v"
proof (cases "q = 0")
  case True
  with assms show ?thesis by (simp add: toDouble_def)
next
  case False
  with assms have "0 < q" by simp
  with assms(2) roundPos_nonneg [of q] show ?thesis
    by (auto simp: toDouble_def split: if_splits)
qed

lemma digitsValue_nonneg: "0 \<le> digitsValue ds"
proof -
  have "0 \<le> a \<Longrightarrow> 0 \<le> foldl (\<lambda>a c. 10 * a + int (c - 48)) a ds" for a
    by (induction ds arbitrary: a) simp_all
  then show ?thesis by (simp add: digitsValue_def)
qed

lemma parseFloat_nonneg:
  assumes "parseFloat s = Finite q"
  shows "0 \<le> q"
proof -
  define ip where "ip = takeWhile isDigit s"
  define fp where
    "fp = (case dropWhile isDigit s of [] \<Rightarrow> [] | c # t \<Rightarrow> if c = 46 then takeWhile isDigit t else [])"
  have "parseFloat s =
          (if ip = [] \<and> fp = [] then NaN
           else toDouble (of_int (digitsValue (ip @ fp)) / 10 ^ length fp))"
    by (simp add: parseFloat_def Let_def ip_def fp_def)
  with assms have "toDouble (of_int (digitsValue (ip @ fp)) / 10 ^ length fp) = Finite q"
    by (simp split: if_splits)
  moreover have "0 \<le> (of_int (digitsValue (ip @ fp)) :: rat) / 10 ^ length fp"
    using digitsValue_nonneg [of "ip @ fp"] by simp
  ultimately show ?thesis using toDouble_nonneg by blast
qed

lemma grossPay_nonneg:
  assumes "mul (parseFloat a) (parseFloat b) = Finite g"
  shows "0 \<le> g"
proof -
  obtain x y where x: "parseFloat a = Finite x" and y: "parseFloat b = Finite y"
    using assms by (cases "parseFloat a"; cases "parseFloat b") (auto split: if_splits)
  have "0 \<le> x * y" using parseFloat_nonneg [OF x] parseFloat_nonneg [OF y] by simp
  moreover have "toDouble (x * y) = Finite g" using assms by (simp add: x y)
  ultimately show ?thesis by (rule toDouble_nonneg)
qed

lemma amounts_in_range:
  assumes g: "mul h r = Finite g" and range: "0 \<le> g" "g < 10 ^ 21"
  shows "\<exists>t n. mul (Finite g) totalRate = Finite t \<and> 0 \<le> t \<and> t < 10 ^ 21
               \<and> sub (Finite g) (Finite t) = Finite n \<and> 0 \<le> n \<and> n < 10 ^ 21"
proof -
  define R :: rat where "R = 3062447746611937 / 18014398509481984"
  have fixed: "toDouble g = Finite g" using g by (rule mul_Finite_fixed)
  have R: "0 \<le> R" "R \<le> 1" by (simp_all add: R_def)
  have "0 \<le> g * R" using range(1) R(1) by simp
  moreover have "g * R \<le> g" using range(1) R(2) by (simp add: mult_left_le)
  ultimately obtain t where t: "toDouble (g * R) = Finite t" "0 \<le> t" "t \<le> g"
    using toDouble_le [OF _ _ fixed] by blast
  have taxes: "mul (Finite g) totalRate = Finite t"
    by (simp add: totalRate_value R_def [symmetric] t(1))
  have "0 \<le> g - t" "g - t \<le> g" using t(2,3) by simp_all
  then obtain n where n: "toDouble (g - t) = Finite n" "0 \<le> n" "n \<le> g"
    using toDouble_le [OF _ _ fixed] by blast
  have net: "sub (Finite g) (Finite t) = Finite n"
    by (simp add: sub_def n(1))
  from t n range taxes net show ?thesis by auto
qed

lemma amounts_two_decimals:
  assumes "belowLimit (mul (parseFloat m1) (parseFloat m2))"
  shows "twoDecimals (toFixed (mul (parseFloat m1) (parseFloat m2)) 2)
         \<and> twoDecimals (toFixed (mul (mul (parseFloat m1) (parseFloat m2)) totalRate) 2)
         \<and> twoDecimals (toFixed (sub (mul (parseFloat m1) (parseFloat m2))
                                      (mul (mul (parseFloat m1) (parseFloat m2)) totalRate)) 2)"
proof -
  obtain g where g: "mul (parseFloat m1) (parseFloat m2) = Finite g" and below: "g < 10 ^ 21"
    using assms by (cases "mul (parseFloat m1) (parseFloat m2)") simp_all
  have nonneg: "0 \<le> g" using g by (rule grossPay_nonneg)
  from amounts_in_range [OF g nonneg below]
  obtain t n where t: "mul (Finite g) totalRate = Finite t" "0 \<le> t" "t < 10 ^ 21"
    and n: "sub (Finite g) (Finite t) = Finite n" "0 \<le> n" "n < 10 ^ 21"
    by blast
  show ?thesis
    unfolding g t(1) n(1)
    using toFixed_two [OF nonneg below] toFixed_two [OF t(2,3)] toFixed_two [OF n(2,3)]
    by blast
qed

lemma grossPay_example: "mul (parseFloat (js ''40'')) (parseFloat (js ''35'')) = Finite 1400"
  by code_simp

lemma taxes_example:
  "mul (Finite 1400) (Finite (3062447746611937 / 18014398509481984))
     = Finite (8373880557142015 / 35184372088832)"
  by code_simp

lemma netPay_example:
  "sub (Finite 1400) (Finite (8373880557142015 / 35184372088832)) = Finite 1162"
  by code_simp

lemma grossPay_text: "toFixed (Finite 1400) 2 = js ''1400.00''"
  by code_simp

lemma taxes_text: "toFixed (Finite (8373880557142015 / 35184372088832)) 2 = js ''238.00''"
  by code_simp

lemma netPay_text: "toFixed (Finite 1162) 2 = js ''1162.00''"
  by code_simp

lemmas example_values = grossPay_example totalRate_value taxes_example
  netPay_example grossPay_text taxes_text netPay_text

lemma reply_example:
  "handleBotResponse awaiting_tax_details
       (js ''hours: 40, rate: 35, state: NY, county: Kings, city: NYC'')
     = (estimate (js ''NYC'') (js ''Kings'') (js ''NY'')
          (js ''1400.00'') (js ''238.00'') (js ''1162.00''), awaiting_anything_else)"
  using matched_reply [OF slots_example] unfolding example_values .

lemma reply_example_v2:
  "handleBotResponse_v2 awaiting_tax_details
       (js ''hours: 40, rate: 35, state: NY, county: Kings, city: NYC'')
     = (estimate_v2 (js ''NYC'') (js ''Kings'') (js ''NY'')
          (js ''1400.00'') (js ''238.00'') (js ''1162.00''), awaiting_anything_else)"
  using matched_reply_v2 [OF slots_example] unfolding example_values .

text \<open>
  C1, as amended. In state \<open>awaiting_tax_details\<close>, for every utterance that the pattern
  matches, the engine parses the first two groups (texts of digits and dots) as \<open>hours\<close>
  and \<open>rate\<close>, computes
  \<open>grossPay = hours * rate\<close>, \<open>taxes = grossPay * (0.12 + 0.05)\<close> and
  \<open>netPay = grossPay - taxes\<close> in binary64 arithmetic, fills the texts \<open>toFixed(2)\<close> of the
  three amounts and the three names into the template, and moves to
  \<open>awaiting_anything_else\<close>. When the gross pay is finite and below \<open>10^21\<close>, each of the
  three amounts is printed with exactly two decimal places. For the utterance
  ``hours: 40, rate: 35, state: NY, county: Kings, city: NYC'' the reply names
  ``NYC, Kings County, NY'' and the amounts \<open>$1400.00\<close>, \<open>$238.00\<close> and \<open>$1162.00\<close>.

  The claim as written promises two decimal places for every matching utterance: from
  \<open>10^21\<close> on, \<open>toFixed\<close> answers in exponential notation.
\<close>

theorem tax_estimate:
  assumes "match_js regex u = Some m"
  shows "\<exists>m1 m2 m3 m4 m5 grossPay taxes netPay.
           m = [m1, m2, m3, m4, m5]
           \<and> list_all isNumberChar m1 \<and> list_all isNumberChar m2
           \<and> grossPay = mul (parseFloat m1) (parseFloat m2)
           \<and> taxes = mul grossPay (add (toDouble (12 / 100)) (toDouble (5 / 100)))
           \<and> netPay = sub grossPay taxes
           \<and> handleBotResponse awaiting_tax_details u =
               (estimate m5 m4 m3 (toFixed grossPay 2) (toFixed taxes 2) (toFixed netPay 2),
                awaiting_anything_else)
           \<and> (belowLimit grossPay \<longrightarrow>
                twoDecimals (toFixed grossPay 2) \<and> twoDecimals (toFixed taxes 2)
                \<and> twoDecimals (toFixed netPay 2))"
proof -
  obtain m1 m2 m3 m4 m5 where m: "m = [m1, m2, m3, m4, m5]"
    using five_groups [OF assms] by blast
  have rate: "totalRate = add (toDouble (12 / 100)) (toDouble (5 / 100))"
    unfolding totalRate_def federalRate_def stateRate_def ..
  show ?thesis
    using matched_reply [OF assms [unfolded m]] m amounts_two_decimals [of m1 m2]
      groups_shape [OF assms [unfolded m]]
    unfolding rate by blast
qed

lemma includes_example:
  "includes_js (estimate (js ''NYC'') (js ''Kings'') (js ''NY'')
                  (js ''1400.00'') (js ''238.00'') (js ''1162.00''))
               (js ''NYC, Kings County, NY'')"
  "includes_js (estimate (js ''NYC'') (js ''Kings'') (js ''NY'')
                  (js ''1400.00'') (js ''238.00'') (js ''1162.00''))
               (js ''$1400.00'')"
  "includes_js (estimate (js ''NYC'') (js ''Kings'') (js ''NY'')
                  (js ''1400.00'') (js ''238.00'') (js ''1162.00''))
               (js ''$238.00'')"
  "includes_js (estimate (js ''NYC'') (js ''Kings'') (js ''NY'')
                  (js ''1400.00'') (js ''238.00'') (js ''1162.00''))
               (js ''$1162.00'')"
  by (simp_all add: estimate_def js_def)

theorem tax_estimate_witness:
  "match_js regex (js ''hours: 40, rate: 35, state: NY, county: Kings, city: NYC'')
     = Some [js ''40'', js ''35'', js ''NY'', js ''Kings'', js ''NYC'']
   \<and> belowLimit (mul (parseFloat (js ''40'')) (parseFloat (js ''35'')))
   \<and> handleBotResponse awaiting_tax_details
         (js ''hours: 40, rate: 35, state: NY, county: Kings, city: NYC'')
       = (js ''Estimated taxes for NYC, Kings County, NY:\<newline>Gross Pay: $1400.00\<newline>Taxes: $238.00\<newline>Net Pay: $1162.00\<newline>(Note: this is an estimate.)\<newline>\<newline>Would you like help with anything else?'',
          awaiting_anything_else)
   \<and> includes_js (fst (handleBotResponse awaiting_tax_details
         (js ''hours: 40, rate: 35, state: NY, county: Kings, city: NYC'')))
         (js ''NYC, Kings County, NY'')
   \<and> includes_js (fst (handleBotResponse awaiting_tax_details
         (js ''hours: 40, rate: 35, state: NY, county: Kings, city: NYC''))) (js ''$1400.00'')
   \<and> includes_js (fst (handleBotResponse awaiting_tax_details
         (js ''hours: 40, rate: 35, state: NY, county: Kings, city: NYC''))) (js ''$238.00'')
   \<and> includes_js (fst (handleBotResponse awaiting_tax_details
         (js ''hours: 40, rate: 35, state: NY, county: Kings, city: NYC''))) (js ''$1162.00'')
   \<and> twoDecimals (js ''1400.00'') \<and> twoDecimals (js ''238.00'') \<and> twoDecimals (js ''1162.00'')"
proof -
  let ?u = "js ''hours: 40, rate: 35, state: NY, county: Kings, city: NYC''"
  let ?g = "mul (parseFloat (js ''40'')) (parseFloat (js ''35''))"
  let ?r = "add (toDouble (12 / 100)) (toDouble (5 / 100))"
  let ?t = "mul ?g ?r"
  let ?n = "sub ?g ?t"
  from tax_estimate [OF slots_example]
  have inst: "handleBotResponse awaiting_tax_details ?u =
      (estimate (js ''NYC'') (js ''Kings'') (js ''NY'')
         (toFixed ?g 2) (toFixed ?t 2) (toFixed ?n 2), awaiting_anything_else)
    \<and> (belowLimit ?g \<longrightarrow>
         twoDecimals (toFixed ?g 2) \<and> twoDecimals (toFixed ?t 2) \<and> twoDecimals (toFixed ?n 2))"
    by (simp del: handleBotResponse.simps)
  have rate: "?r = Finite (3062447746611937 / 18014398509481984)"
    using totalRate_value unfolding totalRate_def federalRate_def stateRate_def .
  have below: "belowLimit ?g" unfolding grossPay_example by simp
  from inst below have
    "handleBotResponse awaiting_tax_details ?u =
      (estimate (js ''NYC'') (js ''Kings'') (js ''NY'')
         (toFixed ?g 2) (toFixed ?t 2) (toFixed ?n 2), awaiting_anything_else)"
    and "twoDecimals (toFixed ?g 2)" and "twoDecimals (toFixed ?t 2)"
    and "twoDecimals (toFixed ?n 2)"
    by blast+
  then have reply: "handleBotResponse awaiting_tax_details ?u =
      (estimate (js ''NYC'') (js ''Kings'') (js ''NY'')
         (js ''1400.00'') (js ''238.00'') (js ''1162.00''), awaiting_anything_else)"
    and two: "twoDecimals (js ''1400.00'')" "twoDecimals (js ''238.00'')"
      "twoDecimals (js ''1162.00'')"
    unfolding rate example_values by blast+
  have whole: "estimate (js ''NYC'') (js ''Kings'') (js ''NY'')
         (js ''1400.00'') (js ''238.00'') (js ''1162.00'')
       = js ''Estimated taxes for NYC, Kings County, NY:\<newline>Gross Pay: $1400.00\<newline>Taxes: $238.00\<newline>Net Pay: $1162.00\<newline>(Note: this is an estimate.)\<newline>\<newline>Would you like help with anything else?''"
    by (simp add: estimate_def js_def)
  show ?thesis
    unfolding reply fst_conv using slots_example below includes_example two
    unfolding whole by blast
qed

lemma slots_huge:
  "match_js regex
     (js ''hours: 1000000000000000000000, rate: 1, state: NY, county: Kings, city: NYC'')
     = Some [js ''1000000000000000000000'', js ''1'', js ''NY'', js ''Kings'', js ''NYC'']"
  by (simp add: js_def regex_defs cong: option.case_cong_weak)

lemma grossPay_huge:
  "mul (parseFloat (js ''1000000000000000000000'')) (parseFloat (js ''1''))
     = Finite 1000000000000000000000"
  by code_simp

lemma taxes_huge:
  "mul (Finite 1000000000000000000000) (Finite (3062447746611937 / 18014398509481984))
     = Finite 170000000000000000000"
  by code_simp

lemma netPay_huge:
  "sub (Finite 1000000000000000000000) (Finite 170000000000000000000)
     = Finite 830000000000000000000"
  by code_simp

lemma grossPay_huge_text: "toFixed (Finite 1000000000000000000000) 2 = js ''1e+21''"
  by code_simp

lemma taxes_huge_text:
  "toFixed (Finite 170000000000000000000) 2 = js ''170000000000000000000.00''"
  by code_simp

lemma netPay_huge_text:
  "toFixed (Finite 830000000000000000000) 2 = js ''830000000000000000000.00''"
  by code_simp

theorem huge_amount_counterexample:
  "match_js regex
     (js ''hours: 1000000000000000000000, rate: 1, state: NY, county: Kings, city: NYC'')
     = Some [js ''1000000000000000000000'', js ''1'', js ''NY'', js ''Kings'', js ''NYC'']
   \<and> handleBotResponse awaiting_tax_details
       (js ''hours: 1000000000000000000000, rate: 1, state: NY, county: Kings, city: NYC'')
     = (js ''Estimated taxes for NYC, Kings County, NY:\<newline>Gross Pay: $1e+21\<newline>Taxes: $170000000000000000000.00\<newline>Net Pay: $830000000000000000000.00\<newline>(Note: this is an estimate.)\<newline>\<newline>Would you like help with anything else?'',
        awaiting_anything_else)
   \<and> toFixed (mul (parseFloat (js ''1000000000000000000000'')) (parseFloat (js ''1''))) 2
     = js ''1e+21''
   \<and> \<not> twoDecimals (js ''1e+21'')"
proof -
  have reply: "handleBotResponse awaiting_tax_details
       (js ''hours: 1000000000000000000000, rate: 1, state: NY, county: Kings, city: NYC'')
     = (estimate (js ''NYC'') (js ''Kings'') (js ''NY'') (js ''1e+21'')
          (js ''170000000000000000000.00'') (js ''830000000000000000000.00''),
        awaiting_anything_else)"
    using matched_reply [OF slots_huge]
    unfolding grossPay_huge totalRate_value taxes_huge netPay_huge
      grossPay_huge_text taxes_huge_text netPay_huge_text .
  have whole: "estimate (js ''NYC'') (js ''Kings'') (js ''NY'') (js ''1e+21'')
          (js ''170000000000000000000.00'') (js ''830000000000000000000.00'')
      = js ''Estimated taxes for NYC, Kings County, NY:\<newline>Gross Pay: $1e+21\<newline>Taxes: $170000000000000000000.00\<newline>Net Pay: $830000000000000000000.00\<newline>(Note: this is an estimate.)\<newline>\<newline>Would you like help with anything else?''"
    by (simp add: estimate_def js_def)
  have "\<not> twoDecimals (js ''1e+21'')"
    by (simp add: twoDecimals_def js_def isDigit_def)
  with slots_huge reply show ?thesis
    unfolding whole grossPay_huge grossPay_huge_text by blast
qed

lemma estimate_differs:
  "estimate cityName countyName stateName gross taxes net
     \<noteq> estimate_v2 cityName countyName stateName gross taxes net"
  by (simp add: estimate_def estimate_v2_def js_def)


text \<open>
  C5, as amended. The response functions of the two variants return the same reply and the
  same next state except in two cases. In \<open>awaiting_anything_else\<close>, when the lowered
  utterance contains \<open>no\<close>, both reply ``Thanks, have a nice day!'', the first variant
  moves to \<open>awaiting_tax_request\<close> and the second stays in \<open>awaiting_anything_else\<close>. In
  \<open>awaiting_tax_details\<close>, when the pattern matches, both move to
  \<open>awaiting_anything_else\<close> and fill the same names and amounts into their templates, but
  the replies differ: the lines of the second variant's template are indented.
\<close>

theorem variants_compared:
  "(if s = awaiting_anything_else \<and> includes_js (toLowerCase u) (js ''no'')
    then handleBotResponse s u = (js ''Thanks, have a nice day!'', awaiting_tax_request)
         \<and> handleBotResponse_v2 s u = (js ''Thanks, have a nice day!'', awaiting_anything_else)
    else if s = awaiting_tax_details \<and> match_js regex u \<noteq> None
    then snd (handleBotResponse s u) = awaiting_anything_else
         \<and> snd (handleBotResponse_v2 s u) = awaiting_anything_else
         \<and> fst (handleBotResponse s u) \<noteq> fst (handleBotResponse_v2 s u)
         \<and> (\<exists>cityName countyName stateName gross taxes net.
               fst (handleBotResponse s u)
                 = estimate cityName countyName stateName gross taxes net
               \<and> fst (handleBotResponse_v2 s u)
                 = estimate_v2 cityName countyName stateName gross taxes net)
    else handleBotResponse_v2 s u = handleBotResponse s u)"
proof (cases s)
  case idle
  then show ?thesis by simp
next
  case awaiting_tax_request
  then show ?thesis by simp
next
  case awaiting_anything_else
  then show ?thesis by (simp add: thanks_def)
next
  case awaiting_tax_details
  show ?thesis
  proof (cases "match_js regex u")
    case None
    with awaiting_tax_details show ?thesis by simp
  next
    case (Some m)
    then obtain m1 m2 m3 m4 m5 where "m = [m1, m2, m3, m4, m5]"
      using five_groups by blast
    with Some awaiting_tax_details show ?thesis
      by (simp add: Let_def estimate_differs) blast
  qed
qed

theorem variants_compared_witness:
  "handleBotResponse awaiting_tax_details
       (js ''hours: 40, rate: 35, state: NY, county: Kings, city: NYC'')
     = (estimate (js ''NYC'') (js ''Kings'') (js ''NY'')
          (js ''1400.00'') (js ''238.00'') (js ''1162.00''), awaiting_anything_else)
   \<and> handleBotResponse_v2 awaiting_tax_details
       (js ''hours: 40, rate: 35, state: NY, county: Kings, city: NYC'')
     = (estimate_v2 (js ''NYC'') (js ''Kings'') (js ''NY'')
          (js ''1400.00'') (js ''238.00'') (js ''1162.00''), awaiting_anything_else)
   \<and> handleBotResponse awaiting_anything_else (js ''no thanks'')
     = (js ''Thanks, have a nice day!'', awaiting_tax_request)
   \<and> handleBotResponse_v2 awaiting_anything_else (js ''no thanks'')
     = (js ''Thanks, have a nice day!'', awaiting_anything_else)
   \<and> handleBotResponse_v2 awaiting_tax_request (js ''no thanks'')
     = handleBotResponse awaiting_tax_request (js ''no thanks'')"
proof -
  have no: "includes_js (toLowerCase (js ''no thanks'')) (js ''no'')"
    by (simp add: string_defs)
  from variants_compared [of awaiting_anything_else "js ''no thanks''"] no
  have third: "handleBotResponse awaiting_anything_else (js ''no thanks'')
                 = (js ''Thanks, have a nice day!'', awaiting_tax_request)
               \<and> handleBotResponse_v2 awaiting_anything_else (js ''no thanks'')
                 = (js ''Thanks, have a nice day!'', awaiting_anything_else)"
    by (simp del: handleBotResponse.simps handleBotResponse_v2.simps)
  from variants_compared [of awaiting_tax_request "js ''no thanks''"]
  have fourth: "handleBotResponse_v2 awaiting_tax_request (js ''no thanks'')
                  = handleBotResponse awaiting_tax_request (js ''no thanks'')"
    by (simp del: handleBotResponse.simps handleBotResponse_v2.simps)
  from reply_example reply_example_v2 third fourth show ?thesis by blast
qed

theorem variants_differ_counterexample:
  "awaiting_tax_details \<noteq> awaiting_anything_else
   \<and> fst (handleBotResponse awaiting_tax_details
            (js ''hours: 40, rate: 35, state: NY, county: Kings, city: NYC''))
     = js ''Estimated taxes for NYC, Kings County, NY:\<newline>Gross Pay: $1400.00\<newline>Taxes: $238.00\<newline>Net Pay: $1162.00\<newline>(Note: this is an estimate.)\<newline>\<newline>Would you like help with anything else?''
   \<and> fst (handleBotResponse_v2 awaiting_tax_details
            (js ''hours: 40, rate: 35, state: NY, county: Kings, city: NYC''))
     = js ''Estimated taxes for NYC, Kings County, NY:\<newline>            Gross Pay: $1400.00\<newline>            Taxes: $238.00\<newline>            Net Pay: $1162.00\<newline>            (Note: this is an estimate.)\<newline>\<newline>            Would you like help with anything else?''
   \<and> handleBotResponse awaiting_tax_details
         (js ''hours: 40, rate: 35, state: NY, county: Kings, city: NYC'')
     \<noteq> handleBotResponse_v2 awaiting_tax_details
         (js ''hours: 40, rate: 35, state: NY, county: Kings, city: NYC'')"
  unfolding reply_example reply_example_v2
  by (simp add: estimate_def estimate_v2_def js_def)

end
